theory Spec2Isabelle
  imports Main "HOL-Library.Word"
begin

section \<open>Data model (backend/accounts/models.py)\<close>

text \<open>
  Time is a count of microseconds (the resolution of Python's datetime); a UUID is a
  128-bit value. Strings are lists of 8-bit characters, read as the code points 0..255.
\<close>

type_synonym uuid = "128 word"
type_synonym datetime = int

definition timedelta_hours :: "int \<Rightarrow> int" where
  "timedelta_hours h = h * 3600000000"

definition timedelta_minutes :: "int \<Rightarrow> int" where
  "timedelta_minutes m = m * 60000000"

definition timedelta_days :: "int \<Rightarrow> int" where
  "timedelta_days d = d * 86400000000"

datatype user_type = pet_owner | admin | staff

text \<open>
  A model instance. The primary key is \<open>None\<close> until the instance has been inserted,
  as in Django. \<open>password\<close> holds the encoded hash.
\<close>

record user =
  user_id :: "nat option"
  email :: string
  password :: string
  first_name :: string
  last_name :: string
  phone_number :: string
  user_type :: user_type
  email_verified :: bool
  is_active :: bool
  is_staff :: bool
  date_joined :: datetime
  last_login :: "datetime option"

record email_verification =
  ev_id :: "nat option"
  ev_user_id :: nat
  ev_token :: uuid
  ev_created_at :: "datetime option"
  ev_is_verified :: bool
  ev_expires_at :: "datetime option"

record password_reset =
  pr_id :: "nat option"
  pr_user_id :: nat
  pr_token :: uuid
  pr_created_at :: "datetime option"
  pr_is_used :: bool
  pr_expires_at :: "datetime option"

text \<open>Messages handed to the mail backend (backend/accounts/utils.py): kind, recipient, token.\<close>

datatype mail =
  VerificationEmail string uuid
| WelcomeEmail string
| PasswordResetEmail string uuid
| PasswordChangedEmail string

text \<open>The store: the three tables, their primary-key sequences, and the mails sent.\<close>

record state =
  users :: "user list"
  email_verifications :: "email_verification list"
  password_resets :: "password_reset list"
  next_user_id :: nat
  next_ev_id :: nat
  next_pr_id :: nat
  outbox :: "mail list"

text \<open>
  What a request reads from outside the store: the clock, the value \<open>uuid.uuid4()\<close>
  returns, whether \<open>send_mail\<close> succeeds, Django's \<open>EmailValidator\<close> (whether it accepts the
  parts of an address), the password hasher, the JWT library and the configured token lifetimes.

  Every call of \<open>timezone.now()\<close> is a reading of its own: \<open>now\<close> is the next reading and
  \<open>later k\<close> the readings after it. Code that runs after a reading runs in \<open>tick e\<close>.
\<close>

record env =
  now :: datetime
  later :: "nat \<Rightarrow> datetime"
  uuid4 :: uuid
  send_mail_ok :: bool
  EmailValidator :: "string \<Rightarrow> bool"
  make_password :: "string \<Rightarrow> string"
  check_password :: "string \<Rightarrow> string \<Rightarrow> bool"
  jwt_for_user :: "user \<Rightarrow> string \<times> string"
  access_token_lifetime :: "int option"
  refresh_token_lifetime :: "int option"

definition tick :: "env \<Rightarrow> env" where
  "tick e = e\<lparr>now := later e 0, later := (\<lambda>k. later e (Suc k))\<rparr>"

datatype exn =
  User_DoesNotExist
| EmailVerification_DoesNotExist
| PasswordReset_DoesNotExist
| MultipleObjectsReturned
| IntegrityError
| TypeError
| ValueError

subsection \<open>The object-relational layer\<close>

text \<open>
  \<open>Model.objects.get(...)\<close>: the one row that matches; \<open>DoesNotExist\<close> when none does,
  \<open>MultipleObjectsReturned\<close> when several do.
\<close>

definition objects_get :: "('r \<Rightarrow> bool) \<Rightarrow> exn \<Rightarrow> 'r list \<Rightarrow> exn + 'r" where
  "objects_get p dne rows =
     (case filter p rows of
        [] \<Rightarrow> Inl dne
      | [r] \<Rightarrow> Inr r
      | _ \<Rightarrow> Inl MultipleObjectsReturned)"

text \<open>An UPDATE by primary key, and the INSERT Django falls back to when no row has that key.\<close>

definition update_or_insert :: "('r \<Rightarrow> 'k) \<Rightarrow> 'r \<Rightarrow> 'r list \<Rightarrow> 'r list" where
  "update_or_insert pk x rows =
     (if pk x \<in> set (map pk rows)
      then map (\<lambda>r. if pk r = pk x then x else r) rows
      else rows @ [x])"

text \<open>
  \<open>Model.save()\<close> of the three models: an instance without a primary key is inserted
  (the unique columns are checked, the key comes from the sequence, \<open>auto_now_add\<close>
  stamps \<open>created_at\<close> with a reading of the clock); an instance with one is updated.
\<close>

definition User_save :: "user \<Rightarrow> state \<Rightarrow> (exn + user) \<times> state" where
  "User_save self s =
     (case user_id self of
        None \<Rightarrow>
          if email self \<in> set (map email (users s)) then (Inl IntegrityError, s)
          else
            (let row = self\<lparr>user_id := Some (next_user_id s)\<rparr>
             in (Inr row, s\<lparr>users := users s @ [row], next_user_id := Suc (next_user_id s)\<rparr>))
      | Some i \<Rightarrow> (Inr self, s\<lparr>users := update_or_insert user_id self (users s)\<rparr>))"

definition EmailVerification_super_save ::
  "env \<Rightarrow> email_verification \<Rightarrow> state \<Rightarrow> (exn + email_verification) \<times> state" where
  "EmailVerification_super_save e self s =
     (case ev_id self of
        None \<Rightarrow>
          if ev_token self \<in> set (map ev_token (email_verifications s)) then (Inl IntegrityError, s)
          else
            (let row = self\<lparr>ev_id := Some (next_ev_id s), ev_created_at := Some (now e)\<rparr>
             in (Inr row, s\<lparr>email_verifications := email_verifications s @ [row],
                             next_ev_id := Suc (next_ev_id s)\<rparr>))
      | Some i \<Rightarrow>
          (Inr self, s\<lparr>email_verifications := update_or_insert ev_id self (email_verifications s)\<rparr>))"

definition PasswordReset_super_save ::
  "env \<Rightarrow> password_reset \<Rightarrow> state \<Rightarrow> (exn + password_reset) \<times> state" where
  "PasswordReset_super_save e self s =
     (case pr_id self of
        None \<Rightarrow>
          if pr_token self \<in> set (map pr_token (password_resets s)) then (Inl IntegrityError, s)
          else
            (let row = self\<lparr>pr_id := Some (next_pr_id s), pr_created_at := Some (now e)\<rparr>
             in (Inr row, s\<lparr>password_resets := password_resets s @ [row],
                             next_pr_id := Suc (next_pr_id s)\<rparr>))
      | Some i \<Rightarrow>
          (Inr self, s\<lparr>password_resets := update_or_insert pr_id self (password_resets s)\<rparr>))"

text \<open>The related user of a token (\<open>verification.user\<close>, \<open>reset.user\<close>): fetched by key.\<close>

definition related_user :: "nat \<Rightarrow> state \<Rightarrow> exn + user" where
  "related_user uid s = objects_get (\<lambda>u. user_id u = Some uid) User_DoesNotExist (users s)"

subsection \<open>EmailVerification\<close>

text \<open>
  \<open>save\<close>: sets the expiry to 24 hours from now when the instance has none, then saves;
  \<open>super().save()\<close> runs after that reading of the clock.
\<close>

definition EmailVerification_save ::
  "env \<Rightarrow> email_verification \<Rightarrow> state \<Rightarrow> (exn + email_verification) \<times> state" where
  "EmailVerification_save e self s =
     (if ev_expires_at self = None
      then EmailVerification_super_save (tick e)
             (self\<lparr>ev_expires_at := Some (now e + timedelta_hours 24)\<rparr>) s
      else EmailVerification_super_save e self s)"

text \<open>\<open>is_expired\<close>: \<open>timezone.now() > self.expires_at\<close>; comparing with \<open>None\<close> raises.\<close>

definition EmailVerification_is_expired :: "env \<Rightarrow> email_verification \<Rightarrow> exn + bool" where
  "EmailVerification_is_expired e self =
     (case ev_expires_at self of
        None \<Rightarrow> Inl TypeError
      | Some t \<Rightarrow> Inr (now e > t))"

text \<open>
  \<open>verify\<close>: when not expired, sets \<open>is_verified\<close> on the token and \<open>email_verified\<close> on
  its user, saves the user, saves the token, and returns \<open>True\<close>; otherwise \<open>False\<close>.
\<close>

definition EmailVerification_verify ::
  "env \<Rightarrow> email_verification \<Rightarrow> state \<Rightarrow> (exn + bool) \<times> state" where
  "EmailVerification_verify e self s =
     (case EmailVerification_is_expired e self of
        Inl x \<Rightarrow> (Inl x, s)
      | Inr True \<Rightarrow> (Inr False, s)
      | Inr False \<Rightarrow>
          (case related_user (ev_user_id self) s of
             Inl x \<Rightarrow> (Inl x, s)
           | Inr u \<Rightarrow>
               (case User_save (u\<lparr>email_verified := True\<rparr>) s of
                  (Inl x, s1) \<Rightarrow> (Inl x, s1)
                | (Inr u1, s1) \<Rightarrow>
                    (case EmailVerification_save (tick e) (self\<lparr>ev_is_verified := True\<rparr>) s1 of
                       (Inl x, s2) \<Rightarrow> (Inl x, s2)
                     | (Inr v1, s2) \<Rightarrow> (Inr True, s2)))))"

text \<open>\<open>EmailVerification.objects.create(user=user)\<close>: a new instance with a fresh UUID, saved.\<close>

definition EmailVerification_objects_create ::
  "env \<Rightarrow> user \<Rightarrow> state \<Rightarrow> (exn + email_verification) \<times> state" where
  "EmailVerification_objects_create e u s =
     (case user_id u of
        None \<Rightarrow> (Inl ValueError, s)
      | Some uid \<Rightarrow>
          EmailVerification_save e
            \<lparr>ev_id = None, ev_user_id = uid, ev_token = uuid4 e, ev_created_at = None,
             ev_is_verified = False, ev_expires_at = None\<rparr> s)"

subsection \<open>PasswordReset\<close>

definition PasswordReset_save ::
  "env \<Rightarrow> password_reset \<Rightarrow> state \<Rightarrow> (exn + password_reset) \<times> state" where
  "PasswordReset_save e self s =
     (if pr_expires_at self = None
      then PasswordReset_super_save (tick e)
             (self\<lparr>pr_expires_at := Some (now e + timedelta_hours 1)\<rparr>) s
      else PasswordReset_super_save e self s)"

definition PasswordReset_is_expired :: "env \<Rightarrow> password_reset \<Rightarrow> exn + bool" where
  "PasswordReset_is_expired e self =
     (case pr_expires_at self of
        None \<Rightarrow> Inl TypeError
      | Some t \<Rightarrow> Inr (now e > t))"

text \<open>\<open>can_reset\<close>: \<open>not self.is_used and not self.is_expired()\<close>, the second operand
  evaluated only when the first holds.\<close>

definition PasswordReset_can_reset :: "env \<Rightarrow> password_reset \<Rightarrow> exn + bool" where
  "PasswordReset_can_reset e self =
     (if pr_is_used self then Inr False
      else (case PasswordReset_is_expired e self of
              Inl x \<Rightarrow> Inl x
            | Inr b \<Rightarrow> Inr (\<not> b)))"

definition PasswordReset_objects_create ::
  "env \<Rightarrow> user \<Rightarrow> state \<Rightarrow> (exn + password_reset) \<times> state" where
  "PasswordReset_objects_create e u s =
     (case user_id u of
        None \<Rightarrow> (Inl ValueError, s)
      | Some uid \<Rightarrow>
          PasswordReset_save e
            \<lparr>pr_id = None, pr_user_id = uid, pr_token = uuid4 e, pr_created_at = None,
             pr_is_used = False, pr_expires_at = None\<rparr> s)"

section \<open>Mail (backend/accounts/utils.py)\<close>

text \<open>
  Each function builds its message and calls \<open>send_mail\<close>; it returns \<open>True\<close> when the
  call succeeds and \<open>False\<close> when it raises.
\<close>

definition send_verification_email :: "env \<Rightarrow> user \<Rightarrow> uuid \<Rightarrow> state \<Rightarrow> bool \<times> state" where
  "send_verification_email e u token s =
     (if send_mail_ok e then (True, s\<lparr>outbox := outbox s @ [VerificationEmail (email u) token]\<rparr>)
      else (False, s))"

definition send_welcome_email :: "env \<Rightarrow> user \<Rightarrow> state \<Rightarrow> bool \<times> state" where
  "send_welcome_email e u s =
     (if send_mail_ok e then (True, s\<lparr>outbox := outbox s @ [WelcomeEmail (email u)]\<rparr>)
      else (False, s))"

definition send_password_reset_email :: "env \<Rightarrow> user \<Rightarrow> uuid \<Rightarrow> state \<Rightarrow> bool \<times> state" where
  "send_password_reset_email e u token s =
     (if send_mail_ok e then (True, s\<lparr>outbox := outbox s @ [PasswordResetEmail (email u) token]\<rparr>)
      else (False, s))"

definition send_password_changed_email :: "env \<Rightarrow> user \<Rightarrow> state \<Rightarrow> bool \<times> state" where
  "send_password_changed_email e u s =
     (if send_mail_ok e then (True, s\<lparr>outbox := outbox s @ [PasswordChangedEmail (email u)]\<rparr>)
      else (False, s))"

section \<open>Responses\<close>

datatype json =
  JNull
| JBool bool
| JStr string
| JInt int
| JDateTime datetime
| JList "json list"
| JObj "(string \<times> json) list"

text \<open>\<open>Response(data, status=...)\<close>: the body's keys in the order written, and the status code.\<close>

datatype response = Response "(string \<times> json) list" nat

section \<open>Strings and regular expressions\<close>

text \<open>
  Python's \<open>str.isspace\<close>, \<open>str.lower\<close> and \<open>str.strip\<close> on the code points 0..255.
\<close>

definition py_isspace :: "char \<Rightarrow> bool" where
  "py_isspace c =
     (let n = (of_char c :: nat)
      in (9 \<le> n \<and> n \<le> 13) \<or> (28 \<le> n \<and> n \<le> 32) \<or> n = 133 \<or> n = 160)"

definition py_lower_char :: "char \<Rightarrow> char" where
  "py_lower_char c =
     (let n = (of_char c :: nat)
      in if (65 \<le> n \<and> n \<le> 90) \<or> (192 \<le> n \<and> n \<le> 222 \<and> n \<noteq> 215)
         then char_of (n + 32) else c)"

definition str_lower :: "string \<Rightarrow> string" where
  "str_lower s = map py_lower_char s"

definition str_strip :: "string \<Rightarrow> string" where
  "str_strip s = rev (dropWhile py_isspace (rev (dropWhile py_isspace s)))"

definition ascii_letter :: "char \<Rightarrow> bool" where
  "ascii_letter c =
     (let n = (of_char c :: nat) in (65 \<le> n \<and> n \<le> 90) \<or> (97 \<le> n \<and> n \<le> 122))"

definition ascii_digit :: "char \<Rightarrow> bool" where
  "ascii_digit c = (let n = (of_char c :: nat) in 48 \<le> n \<and> n \<le> 57)"

text \<open>
  Regular expressions, matched by derivatives. \<open>Chars p\<close> is a character class.
\<close>

datatype rx =
  Zero
| Eps
| Chars "char \<Rightarrow> bool"
| Seq rx rx
| Alt rx rx
| Star rx

fun nullable :: "rx \<Rightarrow> bool" where
  "nullable Zero = False"
| "nullable Eps = True"
| "nullable (Chars p) = False"
| "nullable (Seq r1 r2) = (nullable r1 \<and> nullable r2)"
| "nullable (Alt r1 r2) = (nullable r1 \<or> nullable r2)"
| "nullable (Star r) = True"

fun deriv :: "char \<Rightarrow> rx \<Rightarrow> rx" where
  "deriv c Zero = Zero"
| "deriv c Eps = Zero"
| "deriv c (Chars p) = (if p c then Eps else Zero)"
| "deriv c (Seq r1 r2) =
     (if nullable r1 then Alt (Seq (deriv c r1) r2) (deriv c r2) else Seq (deriv c r1) r2)"
| "deriv c (Alt r1 r2) = Alt (deriv c r1) (deriv c r2)"
| "deriv c (Star r) = Seq (deriv c r) (Star r)"

fun fullmatch :: "rx \<Rightarrow> string \<Rightarrow> bool" where
  "fullmatch r [] = nullable r"
| "fullmatch r (c # cs) = fullmatch (deriv c r) cs"

definition Plus :: "rx \<Rightarrow> rx" where
  "Plus r = Seq r (Star r)"

definition Opt :: "rx \<Rightarrow> rx" where
  "Opt r = Alt r Eps"

fun Rep :: "nat \<Rightarrow> rx \<Rightarrow> rx" where
  "Rep 0 r = Eps"
| "Rep (Suc n) r = Seq r (Rep n r)"

text \<open>
  \<open>re.match\<close> of a pattern \<open>^r$\<close>: \<open>$\<close> matches at the end and before a final newline.
\<close>

definition re_match_anchored :: "rx \<Rightarrow> string \<Rightarrow> bool" where
  "re_match_anchored r s = (fullmatch r s \<or> fullmatch (Seq r (Chars (\<lambda>c. c = CHR 0x0A))) s)"

section \<open>Serializers (backend/accounts/serializers.py)\<close>

text \<open>
  A request record holds the values submitted for the fields the serializer declares, each
  a JSON string; an optional field that the request leaves out is \<open>None\<close>. Requests that
  leave out a required field or send another JSON type, and user types outside the
  declared choices, are not represented.
\<close>

record registration_request =
  reg_email :: string
  reg_password :: string
  reg_confirm_password :: string
  reg_first_name :: string
  reg_last_name :: string
  reg_phone_number :: "string option"
  reg_user_type :: "user_type option"

record login_request =
  login_email :: string
  login_password :: string

record reset_password_request =
  reset_token :: uuid
  reset_new_password :: string
  reset_confirm_password :: string

subsection \<open>The field classes of the framework\<close>

text \<open>
  \<open>CharField.run_validation\<close>: a value that is empty once stripped is the error
  \<open>blank\<close>, or the empty string when \<open>allow_blank\<close> is set; any other value is stripped
  and handed to the field's validators, whose messages are collected in their order.
\<close>

definition CharField_run_validation ::
  "bool \<Rightarrow> (string \<Rightarrow> string list) \<Rightarrow> string \<Rightarrow> string list + string" where
  "CharField_run_validation allow_blank validators data =
     (if data = [] \<or> str_strip data = []
      then (if allow_blank then Inr [] else Inl [''This field may not be blank.''])
      else
        (let v = str_strip data;
             errors = validators v
         in if errors \<noteq> [] then Inl errors else Inr v))"

text \<open>
  The validators a field carries, in the order the framework appends them: those of the
  model field, the length limit, \<open>ProhibitNullCharactersValidator\<close>, and for an
  \<open>EmailField\<close> the \<open>EmailValidator\<close>. Strings hold the code points 0..255, so the
  surrogates that \<open>ProhibitSurrogateCharactersValidator\<close> refuses do not occur.
\<close>

fun decimal :: "nat \<Rightarrow> string" where
  "decimal n =
     (if n < 10 then [char_of (48 + n)] else decimal (n div 10) @ [char_of (48 + n mod 10)])"

definition MaxLengthValidator :: "nat \<Rightarrow> string \<Rightarrow> string list" where
  "MaxLengthValidator n v =
     (if length v > n
      then [''Ensure this field has no more than '' @ decimal n @ '' characters.'']
      else [])"

definition ProhibitNullCharactersValidator :: "string \<Rightarrow> string list" where
  "ProhibitNullCharactersValidator v =
     (if CHR 0x00 \<in> set v then [''Null characters are not allowed.''] else [])"

text \<open>
  \<open>EmailField\<close> appends Django's \<open>EmailValidator\<close> with its own message. The validator
  refuses an empty value and a value without \<open>@\<close> before it splits the address; what it
  then decides on the two parts is the parameter \<open>EmailValidator\<close> of the environment.
\<close>

definition EmailValidator_errors :: "env \<Rightarrow> string \<Rightarrow> string list" where
  "EmailValidator_errors e v =
     (if v = [] \<or> CHR ''@'' \<notin> set v \<or> \<not> EmailValidator e v
      then [''Enter a valid email address.'']
      else [])"

text \<open>
  The \<open>UniqueValidator\<close> a ModelSerializer gives the unique column \<open>email\<close>: an exact
  lookup of the value.
\<close>

definition UniqueValidator_email :: "state \<Rightarrow> string \<Rightarrow> string list" where
  "UniqueValidator_email s v =
     (if filter (\<lambda>u. email u = v) (users s) \<noteq> []
      then [''user with this email address already exists.'']
      else [])"

text \<open>
  A field's validation, then its \<open>validate_<field>\<close> hook on the validated value. A hook
  returns the value (\<open>Inr\<close>) or the message of its ValidationError (\<open>Inl\<close>).
\<close>

definition then_hook :: "(string \<Rightarrow> string + string) \<Rightarrow> string list + string \<Rightarrow> string list + string" where
  "then_hook hook r =
     (case r of
        Inl errors \<Rightarrow> Inl errors
      | Inr v \<Rightarrow> (case hook v of Inl msg \<Rightarrow> Inl [msg] | Inr w \<Rightarrow> Inr w))"

text \<open>The entry of \<open>serializer.errors\<close> for a field, and a field's validated value.\<close>

definition field_error :: "string \<Rightarrow> string list + 'a \<Rightarrow> (string \<times> json) list" where
  "field_error name r =
     (case r of Inl errors \<Rightarrow> [(name, JList (map JStr errors))] | Inr v \<Rightarrow> [])"

definition validated :: "'a \<Rightarrow> string list + 'a \<Rightarrow> 'a" where
  "validated d r = (case r of Inl errors \<Rightarrow> d | Inr v \<Rightarrow> v)"

subsection \<open>UserRegistrationSerializer\<close>

text \<open>\<open>[a-zA-Z0-9._%+-]\<close> and \<open>[a-zA-Z0-9.-]\<close>.\<close>

definition email_local_char :: "char \<Rightarrow> bool" where
  "email_local_char c = (ascii_letter c \<or> ascii_digit c \<or> c \<in> set ''._%+-'')"

definition email_domain_char :: "char \<Rightarrow> bool" where
  "email_domain_char c = (ascii_letter c \<or> ascii_digit c \<or> c \<in> set ''.-'')"

text \<open>\<open>^[a-zA-Z0-9._%+-]+@[a-zA-Z0-9.-]+\.[a-zA-Z]{2,}$\<close>, without the anchors.\<close>

definition email_regex :: rx where
  "email_regex =
     Seq (Plus (Chars email_local_char))
      (Seq (Chars (\<lambda>c. c = CHR ''@''))
        (Seq (Plus (Chars email_domain_char))
          (Seq (Chars (\<lambda>c. c = CHR ''.''))
            (Seq (Rep 2 (Chars ascii_letter)) (Star (Chars ascii_letter))))))"

text \<open>\<open>^\+?[\d]{10,15}$\<close>, without the anchors.\<close>

definition phone_regex :: rx where
  "phone_regex =
     Seq (Opt (Chars (\<lambda>c. c = CHR ''+'')))
       (Seq (Rep 10 (Chars ascii_digit)) (Rep 5 (Opt (Chars ascii_digit))))"

definition email_exists :: "string \<Rightarrow> state \<Rightarrow> bool" where
  "email_exists v s = (filter (\<lambda>u. email u = v) (users s) \<noteq> [])"

definition UserRegistrationSerializer_validate_email :: "string \<Rightarrow> state \<Rightarrow> string + string" where
  "UserRegistrationSerializer_validate_email v0 s =
     (let v = str_strip (str_lower v0)
      in if email_exists v s then Inl ''A user with this email already exists.''
         else if \<not> re_match_anchored email_regex v then Inl ''Enter a valid email address.''
         else Inr v)"

text \<open>The password policy, the same in \<open>validate_password\<close> and \<open>validate_new_password\<close>.\<close>

definition validate_password_strength :: "string \<Rightarrow> string + string" where
  "validate_password_strength v =
     (if length v < 8 then Inl ''Password must be at least 8 characters long.''
      else if \<not> list_ex ascii_letter v then Inl ''Password must contain at least one letter.''
      else if \<not> list_ex ascii_digit v then Inl ''Password must contain at least one number.''
      else Inr v)"

definition UserRegistrationSerializer_validate_password :: "string \<Rightarrow> string + string" where
  "UserRegistrationSerializer_validate_password v = validate_password_strength v"

definition UserRegistrationSerializer_validate_phone_number :: "string \<Rightarrow> string + string" where
  "UserRegistrationSerializer_validate_phone_number v =
     (if v \<noteq> []
      then
        (let cleaned = filter (\<lambda>c. \<not> (py_isspace c \<or> c \<in> set ''-()'')) v
         in if \<not> re_match_anchored phone_regex cleaned
            then Inl ''Enter a valid phone number (10-15 digits).''
            else Inr v)
      else Inr v)"

text \<open>
  \<open>is_valid\<close>: every field in the order of \<open>Meta.fields\<close>, its errors under its name;
  when no field fails, \<open>validate\<close> compares the two passwords. The fields of the model
  carry its limits: \<open>email\<close> is unique and at most 254 characters, the names at most 150,
  the phone number at most 20 and may be blank. The validated data hold the validated
  values.
\<close>

definition UserRegistrationSerializer_is_valid ::
  "env \<Rightarrow> registration_request \<Rightarrow> state \<Rightarrow> (string \<times> json) list + registration_request" where
  "UserRegistrationSerializer_is_valid e req s =
     (let r_email =
            then_hook (\<lambda>v. UserRegistrationSerializer_validate_email v s)
              (CharField_run_validation False
                 (\<lambda>v. UniqueValidator_email s v @ MaxLengthValidator 254 v
                        @ ProhibitNullCharactersValidator v @ EmailValidator_errors e v)
                 (reg_email req));
          r_password =
            then_hook UserRegistrationSerializer_validate_password
              (CharField_run_validation False ProhibitNullCharactersValidator (reg_password req));
          r_confirm =
            CharField_run_validation False ProhibitNullCharactersValidator
              (reg_confirm_password req);
          r_first =
            CharField_run_validation False
              (\<lambda>v. MaxLengthValidator 150 v @ ProhibitNullCharactersValidator v)
              (reg_first_name req);
          r_last =
            CharField_run_validation False
              (\<lambda>v. MaxLengthValidator 150 v @ ProhibitNullCharactersValidator v)
              (reg_last_name req);
          r_phone =
            (case reg_phone_number req of
               None \<Rightarrow> Inr None
             | Some p \<Rightarrow>
                 (case then_hook UserRegistrationSerializer_validate_phone_number
                         (CharField_run_validation True
                            (\<lambda>v. MaxLengthValidator 20 v @ ProhibitNullCharactersValidator v) p) of
                    Inl errors \<Rightarrow> Inl errors
                  | Inr v \<Rightarrow> Inr (Some v)));
          errors = field_error ''email'' r_email @ field_error ''password'' r_password
                     @ field_error ''confirm_password'' r_confirm
                     @ field_error ''first_name'' r_first @ field_error ''last_name'' r_last
                     @ field_error ''phone_number'' r_phone;
          attrs = \<lparr>reg_email = validated [] r_email,
                   reg_password = validated [] r_password,
                   reg_confirm_password = validated [] r_confirm,
                   reg_first_name = validated [] r_first,
                   reg_last_name = validated [] r_last,
                   reg_phone_number = validated None r_phone,
                   reg_user_type = reg_user_type req\<rparr>
      in if errors \<noteq> [] then Inl errors
         else if reg_password attrs \<noteq> reg_confirm_password attrs
         then Inl [(''confirm_password'', JList [JStr ''Passwords do not match.''])]
         else Inr attrs)"

text \<open>
  \<open>BaseUserManager.normalize_email\<close> (Django): strips the address and lower-cases the part
  after the last \<open>@\<close>; an address without \<open>@\<close> is returned as it is.
\<close>

definition normalize_email :: "string \<Rightarrow> string" where
  "normalize_email v =
     (let t = str_strip v
      in if CHR ''@'' \<in> set t
         then
           (let domain_part = rev (takeWhile (\<lambda>c. c \<noteq> CHR ''@'') (rev t));
                email_name = take (length t - Suc (length domain_part)) t
            in email_name @ ''@'' @ str_lower domain_part)
         else v)"

text \<open>
  \<open>UserManager.create_user\<close> (models.py), with the fields \<open>create\<close> passes; the other
  columns take their defaults, \<open>date_joined\<close> a reading of the clock.
\<close>

definition UserManager_create_user ::
  "env \<Rightarrow> string \<Rightarrow> string \<Rightarrow> string \<Rightarrow> string \<Rightarrow> string \<Rightarrow> user_type \<Rightarrow> bool \<Rightarrow> bool
     \<Rightarrow> state \<Rightarrow> (exn + user) \<times> state" where
  "UserManager_create_user e email0 password0 first0 last0 phone utype active verified s =
     (if email0 = [] then (Inl ValueError, s)
      else
        User_save
          \<lparr>user_id = None, email = normalize_email email0, password = make_password e password0,
           first_name = first0, last_name = last0, phone_number = phone, user_type = utype,
           email_verified = verified, is_active = active, is_staff = False,
           date_joined = now e, last_login = None\<rparr> s)"

definition UserRegistrationSerializer_create ::
  "env \<Rightarrow> registration_request \<Rightarrow> state \<Rightarrow> (exn + user) \<times> state" where
  "UserRegistrationSerializer_create e validated_data s =
     UserManager_create_user e
       (reg_email validated_data)
       (reg_password validated_data)
       (reg_first_name validated_data)
       (reg_last_name validated_data)
       (case reg_phone_number validated_data of None \<Rightarrow> [] | Some p \<Rightarrow> p)
       (case reg_user_type validated_data of None \<Rightarrow> pet_owner | Some t \<Rightarrow> t)
       False
       False
       s"

subsection \<open>UserLoginSerializer, ForgotPasswordSerializer, ResetPasswordSerializer\<close>

text \<open>
  These serializers declare their fields themselves: \<open>EmailField\<close> and \<open>CharField\<close>
  without a length limit, \<open>UUIDField\<close> for the reset token.
\<close>

definition UserLoginSerializer_validate_email :: "string \<Rightarrow> string + string" where
  "UserLoginSerializer_validate_email v = Inr (str_strip (str_lower v))"

definition UserLoginSerializer_validate_password :: "string \<Rightarrow> string + string" where
  "UserLoginSerializer_validate_password v =
     (if v = [] \<or> str_strip v = [] then Inl ''Password cannot be empty.'' else Inr v)"

definition UserLoginSerializer_is_valid ::
  "env \<Rightarrow> login_request \<Rightarrow> (string \<times> json) list + login_request" where
  "UserLoginSerializer_is_valid e req =
     (let r_email =
            then_hook UserLoginSerializer_validate_email
              (CharField_run_validation False
                 (\<lambda>v. ProhibitNullCharactersValidator v @ EmailValidator_errors e v)
                 (login_email req));
          r_password =
            then_hook UserLoginSerializer_validate_password
              (CharField_run_validation False ProhibitNullCharactersValidator (login_password req));
          errors = field_error ''email'' r_email @ field_error ''password'' r_password
      in if errors \<noteq> [] then Inl errors
         else Inr \<lparr>login_email = validated [] r_email,
                    login_password = validated [] r_password\<rparr>)"

definition ForgotPasswordSerializer_validate_email :: "string \<Rightarrow> string + string" where
  "ForgotPasswordSerializer_validate_email v = Inr (str_strip (str_lower v))"

definition ForgotPasswordSerializer_is_valid ::
  "env \<Rightarrow> string \<Rightarrow> (string \<times> json) list + string" where
  "ForgotPasswordSerializer_is_valid e email0 =
     (let r_email =
            then_hook ForgotPasswordSerializer_validate_email
              (CharField_run_validation False
                 (\<lambda>v. ProhibitNullCharactersValidator v @ EmailValidator_errors e v) email0);
          errors = field_error ''email'' r_email
      in if errors \<noteq> [] then Inl errors else Inr (validated [] r_email))"

definition ResetPasswordSerializer_validate_new_password :: "string \<Rightarrow> string + string" where
  "ResetPasswordSerializer_validate_new_password v = validate_password_strength v"

definition ResetPasswordSerializer_is_valid ::
  "reset_password_request \<Rightarrow> (string \<times> json) list + reset_password_request" where
  "ResetPasswordSerializer_is_valid req =
     (let r_password =
            then_hook ResetPasswordSerializer_validate_new_password
              (CharField_run_validation False ProhibitNullCharactersValidator
                 (reset_new_password req));
          r_confirm =
            CharField_run_validation False ProhibitNullCharactersValidator
              (reset_confirm_password req);
          errors = field_error ''new_password'' r_password
                     @ field_error ''confirm_password'' r_confirm;
          attrs = \<lparr>reset_token = reset_token req,
                   reset_new_password = validated [] r_password,
                   reset_confirm_password = validated [] r_confirm\<rparr>
      in if errors \<noteq> [] then Inl errors
         else if reset_new_password attrs \<noteq> reset_confirm_password attrs
         then Inl [(''confirm_password'', JList [JStr ''Passwords do not match.''])]
         else Inr attrs)"

text \<open>\<open>UserProfileSerializer(user).data\<close>; no profile picture is ever stored.\<close>

definition User_get_full_name :: "user \<Rightarrow> string" where
  "User_get_full_name u = str_strip (first_name u @ '' '' @ last_name u)"

definition user_type_str :: "user_type \<Rightarrow> string" where
  "user_type_str t =
     (case t of pet_owner \<Rightarrow> ''pet_owner'' | admin \<Rightarrow> ''admin'' | staff \<Rightarrow> ''staff'')"

definition UserProfileSerializer_data :: "user \<Rightarrow> json" where
  "UserProfileSerializer_data u =
     JObj [(''id'', (case user_id u of None \<Rightarrow> JNull | Some i \<Rightarrow> JInt (int i))),
           (''email'', JStr (email u)),
           (''first_name'', JStr (first_name u)),
           (''last_name'', JStr (last_name u)),
           (''full_name'', JStr (User_get_full_name u)),
           (''phone_number'', JStr (phone_number u)),
           (''user_type'', JStr (user_type_str (user_type u))),
           (''profile_picture'', JNull),
           (''email_verified'', JBool (email_verified u)),
           (''is_active'', JBool (is_active u)),
           (''date_joined'', JDateTime (date_joined u)),
           (''last_login'', (case last_login u of None \<Rightarrow> JNull | Some t \<Rightarrow> JDateTime t))]"

section \<open>Views (backend/accounts/views.py)\<close>

text \<open>
  A view maps the request and the store to a response, or to the exception it does not
  handle, and the store it leaves.
\<close>

subsection \<open>UserRegistrationView.post\<close>

definition UserRegistrationView_post ::
  "env \<Rightarrow> registration_request \<Rightarrow> state \<Rightarrow> (exn + response) \<times> state" where
  "UserRegistrationView_post e req s =
     (case UserRegistrationSerializer_is_valid e req s of
        Inr validated_data \<Rightarrow>
          (case UserRegistrationSerializer_create e validated_data s of
             (Inl x, s1) \<Rightarrow> (Inl x, s1)
           | (Inr u, s1) \<Rightarrow>
               (case EmailVerification_objects_create (tick e) u s1 of
                  (Inl x, s2) \<Rightarrow> (Inl x, s2)
                | (Inr verification, s2) \<Rightarrow>
                    (case send_verification_email e u (ev_token verification) s2 of
                       (email_sent, s3) \<Rightarrow>
                         (Inr (Response
                            [(''success'', JBool True),
                             (''message'', JStr ''Registration successful! Please check your email to verify your account.''),
                             (''email'', JStr (email u)),
                             (''email_sent'', JBool email_sent),
                             (''instructions'', JStr ''Check your email inbox and click the verification link to activate your account.'')]
                            201), s3))))
      | Inl errors \<Rightarrow>
          (Inr (Response [(''success'', JBool False), (''errors'', JObj errors)] 400), s))"

subsection \<open>EmailVerificationView.get\<close>

definition EmailVerificationView_get ::
  "env \<Rightarrow> uuid \<Rightarrow> state \<Rightarrow> (exn + response) \<times> state" where
  "EmailVerificationView_get e token s =
     (case objects_get (\<lambda>v. ev_token v = token) EmailVerification_DoesNotExist
             (email_verifications s) of
        Inl x \<Rightarrow>
          if x = EmailVerification_DoesNotExist
          then (Inr (Response [(''success'', JBool False),
                               (''message'', JStr ''Invalid verification token.'')] 404), s)
          else (Inl x, s)
      | Inr verification \<Rightarrow>
          if ev_is_verified verification
          then (Inr (Response [(''success'', JBool False),
                               (''message'', JStr ''Email already verified. You can now login.'')] 400), s)
          else
            (case EmailVerification_is_expired e verification of
               Inl x \<Rightarrow> (Inl x, s)
             | Inr True \<Rightarrow>
                 (Inr (Response [(''success'', JBool False),
                                 (''message'', JStr ''Verification link has expired. Please register again or request a new verification link.'')] 400), s)
             | Inr False \<Rightarrow>
                 (case related_user (ev_user_id verification) s of
                    Inl x \<Rightarrow> (Inl x, s)
                  | Inr u \<Rightarrow>
                      (case User_save (u\<lparr>email_verified := True, is_active := True\<rparr>) s of
                         (Inl x, s1) \<Rightarrow> (Inl x, s1)
                       | (Inr u1, s1) \<Rightarrow>
                           (case EmailVerification_save (tick e) (verification\<lparr>ev_is_verified := True\<rparr>) s1 of
                              (Inl x, s2) \<Rightarrow> (Inl x, s2)
                            | (Inr v1, s2) \<Rightarrow>
                                (case send_welcome_email e u1 s2 of
                                   (sent, s3) \<Rightarrow>
                                     (Inr (Response
                                        [(''success'', JBool True),
                                         (''message'', JStr ''Email verified successfully! You can now login to your account.''),
                                         (''email'', JStr (email u1))]
                                        200), s3)))))))"

subsection \<open>UserLoginView.post\<close>

text \<open>\<open>user.save(update_fields=['last_login'])\<close>: an UPDATE of that column of the user's row.\<close>

definition update_last_login :: "user \<Rightarrow> state \<Rightarrow> state" where
  "update_last_login u s =
     s\<lparr>users := map (\<lambda>r. if user_id r = user_id u then r\<lparr>last_login := last_login u\<rparr> else r)
                  (users s)\<rparr>"

definition UserLoginView_post ::
  "env \<Rightarrow> login_request \<Rightarrow> state \<Rightarrow> (exn + response) \<times> state" where
  "UserLoginView_post e req s =
     (case UserLoginSerializer_is_valid e req of
        Inl errors \<Rightarrow>
          (Inr (Response [(''success'', JBool False), (''errors'', JObj errors)] 400), s)
      | Inr validated_data \<Rightarrow>
          (case objects_get (\<lambda>u. email u = login_email validated_data) User_DoesNotExist (users s) of
             Inl x \<Rightarrow>
               if x = User_DoesNotExist
               then (Inr (Response [(''success'', JBool False),
                                    (''message'', JStr ''Invalid email or password.'')] 401), s)
               else (Inl x, s)
           | Inr u \<Rightarrow>
               if \<not> email_verified u
               then (Inr (Response [(''success'', JBool False),
                                    (''message'', JStr ''Please verify your email before logging in. Check your inbox for the verification link.'')] 403), s)
               else if \<not> is_active u
               then (Inr (Response [(''success'', JBool False),
                                    (''message'', JStr ''Your account has been deactivated. Please contact support.'')] 403), s)
               else if \<not> check_password e (login_password validated_data) (password u)
               then (Inr (Response [(''success'', JBool False),
                                    (''message'', JStr ''Invalid email or password.'')] 401), s)
               else
                 (let u1 = u\<lparr>last_login := Some (now e)\<rparr>;
                      s1 = update_last_login u1 s;
                      refresh_token = fst (jwt_for_user e u1);
                      access_token = snd (jwt_for_user e u1);
                      access_expiry = now (tick e) + (case access_token_lifetime e of
                                                 None \<Rightarrow> timedelta_minutes 60 | Some d \<Rightarrow> d);
                      refresh_expiry = now (tick (tick e)) + (case refresh_token_lifetime e of
                                                  None \<Rightarrow> timedelta_days 1 | Some d \<Rightarrow> d)
                  in (Inr (Response
                        [(''success'', JBool True),
                         (''message'', JStr ''Login successful!''),
                         (''access'', JStr access_token),
                         (''refresh'', JStr refresh_token),
                         (''user'', UserProfileSerializer_data u1),
                         (''access_token_expiry'', JDateTime access_expiry),
                         (''refresh_token_expiry'', JDateTime refresh_expiry)]
                        200), s1))))"

subsection \<open>ForgotPasswordView.post\<close>

definition forgot_password_response :: response where
  "forgot_password_response =
     Response [(''success'', JBool True),
               (''message'', JStr ''If an account exists with this email, you will receive a password reset link shortly.''),
               (''instructions'', JStr ''Please check your email inbox and spam folder.'')] 200"

definition ForgotPasswordView_post ::
  "env \<Rightarrow> string \<Rightarrow> state \<Rightarrow> (exn + response) \<times> state" where
  "ForgotPasswordView_post e email0 s =
     (case ForgotPasswordSerializer_is_valid e email0 of
        Inl errors \<Rightarrow>
          (Inr (Response [(''success'', JBool False), (''errors'', JObj errors)] 400), s)
      | Inr v \<Rightarrow>
          (case objects_get (\<lambda>u. email u = v) User_DoesNotExist (users s) of
             Inl x \<Rightarrow>
               if x = User_DoesNotExist then (Inr forgot_password_response, s) else (Inl x, s)
           | Inr u \<Rightarrow>
               (case PasswordReset_objects_create e u s of
                  (Inl x, s1) \<Rightarrow>
                    if x = User_DoesNotExist then (Inr forgot_password_response, s1) else (Inl x, s1)
                | (Inr reset, s1) \<Rightarrow>
                    (case send_password_reset_email e u (pr_token reset) s1 of
                       (sent, s2) \<Rightarrow> (Inr forgot_password_response, s2)))))"

subsection \<open>ResetPasswordView.post\<close>

definition ResetPasswordView_post ::
  "env \<Rightarrow> reset_password_request \<Rightarrow> state \<Rightarrow> (exn + response) \<times> state" where
  "ResetPasswordView_post e req s =
     (case ResetPasswordSerializer_is_valid req of
        Inl errors \<Rightarrow>
          (Inr (Response [(''success'', JBool False), (''errors'', JObj errors)] 400), s)
      | Inr validated_data \<Rightarrow>
          (case objects_get (\<lambda>r. pr_token r = reset_token validated_data) PasswordReset_DoesNotExist
                  (password_resets s) of
             Inl x \<Rightarrow>
               if x = PasswordReset_DoesNotExist
               then (Inr (Response [(''success'', JBool False),
                                    (''message'', JStr ''Invalid password reset token.'')] 404), s)
               else (Inl x, s)
           | Inr reset \<Rightarrow>
               if pr_is_used reset
               then (Inr (Response [(''success'', JBool False),
                                    (''message'', JStr ''This password reset link has already been used.'')] 400), s)
               else
                 (case PasswordReset_is_expired e reset of
                    Inl x \<Rightarrow> (Inl x, s)
                  | Inr True \<Rightarrow>
                      (Inr (Response [(''success'', JBool False),
                                      (''message'', JStr ''This password reset link has expired. Please request a new one.'')] 400), s)
                  | Inr False \<Rightarrow>
                      (case related_user (pr_user_id reset) s of
                         Inl x \<Rightarrow> (Inl x, s)
                       | Inr u \<Rightarrow>
                           (case User_save (u\<lparr>password := make_password e (reset_new_password validated_data)\<rparr>) s of
                              (Inl x, s1) \<Rightarrow> (Inl x, s1)
                            | (Inr u1, s1) \<Rightarrow>
                                (case PasswordReset_save (tick e) (reset\<lparr>pr_is_used := True\<rparr>) s1 of
                                   (Inl x, s2) \<Rightarrow> (Inl x, s2)
                                 | (Inr r1, s2) \<Rightarrow>
                                     (case send_password_changed_email e u1 s2 of
                                        (sent, s3) \<Rightarrow>
                                          (Inr (Response
                                             [(''success'', JBool True),
                                              (''message'', JStr ''Password reset successful! You can now login with your new password.'')]
                                             200), s3))))))))"

subsection \<open>ResendVerificationEmailView.post\<close>

text \<open>
  The request carries \<open>request.data.get('email')\<close>: \<open>None\<close> when the key is absent.
  \<open>EmailVerification.objects.filter(user=user).delete()\<close> removes every token of the user.
\<close>

definition delete_verifications_of :: "user \<Rightarrow> state \<Rightarrow> state" where
  "delete_verifications_of u s =
     s\<lparr>email_verifications :=
         filter (\<lambda>v. Some (ev_user_id v) \<noteq> user_id u) (email_verifications s)\<rparr>"

definition ResendVerificationEmailView_post ::
  "env \<Rightarrow> string option \<Rightarrow> state \<Rightarrow> (exn + response) \<times> state" where
  "ResendVerificationEmailView_post e email0 s =
     (case email0 of
        None \<Rightarrow>
          (Inr (Response [(''success'', JBool False), (''message'', JStr ''Email is required.'')] 400), s)
      | Some em \<Rightarrow>
          if em = []
          then (Inr (Response [(''success'', JBool False), (''message'', JStr ''Email is required.'')] 400), s)
          else
            (case objects_get (\<lambda>u. email u = str_strip (str_lower em)) User_DoesNotExist (users s) of
               Inl x \<Rightarrow>
                 if x = User_DoesNotExist
                 then (Inr (Response
                         [(''success'', JBool True),
                          (''message'', JStr ''If an account exists with this email, you will receive a verification link shortly.'')]
                         200), s)
                 else (Inl x, s)
             | Inr u \<Rightarrow>
                 if email_verified u
                 then (Inr (Response [(''success'', JBool False),
                                      (''message'', JStr ''Email is already verified. You can login.'')] 400), s)
                 else
                   (case EmailVerification_objects_create e u (delete_verifications_of u s) of
                      (Inl x, s1) \<Rightarrow>
                        if x = User_DoesNotExist
                        then (Inr (Response
                                [(''success'', JBool True),
                                 (''message'', JStr ''If an account exists with this email, you will receive a verification link shortly.'')]
                                200), s1)
                        else (Inl x, s1)
                    | (Inr verification, s1) \<Rightarrow>
                        (case send_verification_email e u (ev_token verification) s1 of
                           (email_sent, s2) \<Rightarrow>
                             (Inr (Response
                                [(''success'', JBool True),
                                 (''message'', JStr ''Verification email sent successfully!''),
                                 (''email'', JStr (email u)),
                                 (''email_sent'', JBool email_sent)]
                                200), s2)))))"

section \<open>The responses the claims name\<close>

text \<open>
  The error kinds of the specification, as the bodies and status codes views.py returns
  for them.
\<close>

definition verify_AlreadyVerifiedError :: response where
  "verify_AlreadyVerifiedError =
     Response [(''success'', JBool False),
               (''message'', JStr ''Email already verified. You can now login.'')] 400"

definition verify_ExpiredError :: response where
  "verify_ExpiredError =
     Response [(''success'', JBool False),
               (''message'', JStr ''Verification link has expired. Please register again or request a new verification link.'')] 400"

definition verify_success :: "string \<Rightarrow> response" where
  "verify_success em =
     Response [(''success'', JBool True),
               (''message'', JStr ''Email verified successfully! You can now login to your account.''),
               (''email'', JStr em)] 200"

definition login_InvalidCredentialsError :: response where
  "login_InvalidCredentialsError =
     Response [(''success'', JBool False), (''message'', JStr ''Invalid email or password.'')] 401"

definition login_UnverifiedEmailError :: response where
  "login_UnverifiedEmailError =
     Response [(''success'', JBool False),
               (''message'', JStr ''Please verify your email before logging in. Check your inbox for the verification link.'')] 403"

definition login_DeactivatedError :: response where
  "login_DeactivatedError =
     Response [(''success'', JBool False),
               (''message'', JStr ''Your account has been deactivated. Please contact support.'')] 403"

definition reset_AlreadyUsedError :: response where
  "reset_AlreadyUsedError =
     Response [(''success'', JBool False),
               (''message'', JStr ''This password reset link has already been used.'')] 400"

definition reset_ExpiredError :: response where
  "reset_ExpiredError =
     Response [(''success'', JBool False),
               (''message'', JStr ''This password reset link has expired. Please request a new one.'')] 400"

definition resend_AlreadyVerifiedError :: response where
  "resend_AlreadyVerifiedError =
     Response [(''success'', JBool False),
               (''message'', JStr ''Email is already verified. You can login.'')] 400"

definition resend_not_found_response :: response where
  "resend_not_found_response =
     Response [(''success'', JBool True),
               (''message'', JStr ''If an account exists with this email, you will receive a verification link shortly.'')] 200"

definition resend_sent_response :: "string \<Rightarrow> bool \<Rightarrow> response" where
  "resend_sent_response em sent =
     Response [(''success'', JBool True),
               (''message'', JStr ''Verification email sent successfully!''),
               (''email'', JStr em),
               (''email_sent'', JBool sent)] 200"

definition registration_success :: "string \<Rightarrow> bool \<Rightarrow> response" where
  "registration_success em sent =
     Response [(''success'', JBool True),
               (''message'', JStr ''Registration successful! Please check your email to verify your account.''),
               (''email'', JStr em),
               (''email_sent'', JBool sent),
               (''instructions'', JStr ''Check your email inbox and click the verification link to activate your account.'')] 201"

text \<open>A response reports success when its body holds \<open>success: True\<close>.\<close>

fun response_success :: "response \<Rightarrow> bool" where
  "response_success (Response body code) = (map_of body ''success'' = Some (JBool True))"

fun response_keys :: "response \<Rightarrow> string list" where
  "response_keys (Response body code) = map fst body"

section \<open>Integrity constraints of the store\<close>

text \<open>
  What the schema of models.py has the database enforce: primary keys are set, unique and
  below their sequence; \<open>email\<close> and the two \<open>token\<close> columns are unique; \<open>expires_at\<close> is
  not null; a token's user exists. \<open>create_user\<close> refuses an empty email.
\<close>

fun pk_below :: "nat \<Rightarrow> nat option \<Rightarrow> bool" where
  "pk_below n None = False"
| "pk_below n (Some i) = (i < n)"

definition wf_users :: "state \<Rightarrow> bool" where
  "wf_users s =
     (distinct (map user_id (users s)) \<and> distinct (map email (users s))
      \<and> list_all (\<lambda>u. pk_below (next_user_id s) (user_id u)) (users s)
      \<and> list_all (\<lambda>u. email u \<noteq> []) (users s))"

definition wf_email_verifications :: "state \<Rightarrow> bool" where
  "wf_email_verifications s =
     (distinct (map ev_id (email_verifications s)) \<and> distinct (map ev_token (email_verifications s))
      \<and> list_all (\<lambda>v. pk_below (next_ev_id s) (ev_id v)) (email_verifications s)
      \<and> list_all (\<lambda>v. ev_expires_at v \<noteq> None) (email_verifications s)
      \<and> list_all (\<lambda>v. Some (ev_user_id v) \<in> set (map user_id (users s))) (email_verifications s))"

definition wf_password_resets :: "state \<Rightarrow> bool" where
  "wf_password_resets s =
     (distinct (map pr_id (password_resets s)) \<and> distinct (map pr_token (password_resets s))
      \<and> list_all (\<lambda>r. pk_below (next_pr_id s) (pr_id r)) (password_resets s)
      \<and> list_all (\<lambda>r. pr_expires_at r \<noteq> None) (password_resets s)
      \<and> list_all (\<lambda>r. Some (pr_user_id r) \<in> set (map user_id (users s))) (password_resets s))"

definition wf_state :: "state \<Rightarrow> bool" where
  "wf_state s = (wf_users s \<and> wf_email_verifications s \<and> wf_password_resets s)"

definition empty_state :: state where
  "empty_state =
     \<lparr>users = [], email_verifications = [], password_resets = [],
      next_user_id = 1, next_ev_id = 1, next_pr_id = 1, outbox = []\<rparr>"

section \<open>A concrete store\<close>

text \<open>
  An environment whose clock advances by a microsecond at each reading and whose hasher
  prefixes the password; its \<open>EmailValidator\<close> accepts the addresses the pattern of
  \<open>validate_email\<close> accepts, as Django's does for the addresses used below. And a
  store with one registered, not yet verified user and her verification token, issued at
  time 0.
\<close>

definition env0 :: env where
  "env0 =
     \<lparr>now = 1000, later = (\<lambda>k. 1001 + int k), uuid4 = 7, send_mail_ok = True,
      EmailValidator = fullmatch email_regex,
      make_password = (\<lambda>p. ''h:'' @ p),
      check_password = (\<lambda>p h. h = ''h:'' @ p),
      jwt_for_user = (\<lambda>u. (''refresh'', ''access'')),
      access_token_lifetime = None, refresh_token_lifetime = None\<rparr>"

definition user0 :: user where
  "user0 =
     \<lparr>user_id = Some 1, email = ''a@x.com'', password = ''h:Passw0rd!'',
      first_name = ''Ann'', last_name = ''Lee'', phone_number = [], user_type = pet_owner,
      email_verified = False, is_active = False, is_staff = False,
      date_joined = 0, last_login = None\<rparr>"

definition ev0 :: email_verification where
  "ev0 =
     \<lparr>ev_id = Some 1, ev_user_id = 1, ev_token = 5, ev_created_at = Some 0,
      ev_is_verified = False, ev_expires_at = Some (timedelta_hours 24)\<rparr>"

definition state0 :: state where
  "state0 =
     \<lparr>users = [user0], email_verifications = [ev0], password_resets = [],
      next_user_id = 2, next_ev_id = 2, next_pr_id = 1, outbox = []\<rparr>"

text \<open>
  The same store a day later, after the token has been consumed: the user is verified and
  active, the clock stands at 25 hours.
\<close>

definition env_late :: env where
  "env_late =
     env0\<lparr>now := timedelta_hours 25, later := (\<lambda>k. timedelta_hours 25 + 1 + int k)\<rparr>"

definition ev_consumed :: email_verification where
  "ev_consumed = ev0\<lparr>ev_is_verified := True\<rparr>"

definition state_consumed :: state where
  "state_consumed =
     state0\<lparr>users := [user0\<lparr>email_verified := True, is_active := True\<rparr>],
            email_verifications := [ev_consumed]\<rparr>"

text \<open>
  A password-reset token of the user, issued at time 0 and already used, and two requests
  that present it: one with a password the policy accepts, one with a password too short.
\<close>

definition pr_used :: password_reset where
  "pr_used =
     \<lparr>pr_id = Some 1, pr_user_id = 1, pr_token = 9, pr_created_at = Some 0,
      pr_is_used = True, pr_expires_at = Some (timedelta_hours 1)\<rparr>"

definition state_reset :: state where
  "state_reset = state_consumed\<lparr>password_resets := [pr_used], next_pr_id := 2\<rparr>"

definition reset_request_good :: reset_password_request where
  "reset_request_good =
     \<lparr>reset_token = 9, reset_new_password = ''NewPass1'', reset_confirm_password = ''NewPass1''\<rparr>"

definition reset_request_short :: reset_password_request where
  "reset_request_short =
     \<lparr>reset_token = 9, reset_new_password = ''short1'', reset_confirm_password = ''short1''\<rparr>"

text \<open>
  Login requests for the user's address (written with capitals and a leading blank), with
  her password, a wrong one and an empty one, and a request for an unknown address; and
  the store in which she is verified but deactivated.
\<close>

definition login_request_good :: login_request where
  "login_request_good = \<lparr>login_email = '' A@X.com'', login_password = ''Passw0rd!''\<rparr>"

definition login_request_wrong :: login_request where
  "login_request_wrong = \<lparr>login_email = '' A@X.com'', login_password = ''Wrong1234''\<rparr>"

definition login_request_blank :: login_request where
  "login_request_blank = \<lparr>login_email = '' A@X.com'', login_password = []\<rparr>"

definition login_request_unknown :: login_request where
  "login_request_unknown = \<lparr>login_email = ''nobody@x.com'', login_password = ''Passw0rd!''\<rparr>"

definition state_deactivated :: state where
  "state_deactivated = state0\<lparr>users := [user0\<lparr>email_verified := True\<rparr>]\<rparr>"

text \<open>A registration request for a second user.\<close>

definition registration_request0 :: registration_request where
  "registration_request0 =
     \<lparr>reg_email = ''Bob@Y.org '', reg_password = ''S3cretpass'',
      reg_confirm_password = ''S3cretpass'', reg_first_name = ''Bob'', reg_last_name = ''Ray'',
      reg_phone_number = Some ''+1 (555) 123-4567'', reg_user_type = None\<rparr>"

section \<open>Lemmas on the object-relational layer\<close>

lemma tick_fields [simp]:
  "now (tick e) = later e 0"
  "later (tick e) = (\<lambda>k. later e (Suc k))"
  "uuid4 (tick e) = uuid4 e"
  "send_mail_ok (tick e) = send_mail_ok e"
  "EmailValidator (tick e) = EmailValidator e"
  "make_password (tick e) = make_password e"
  "check_password (tick e) = check_password e"
  "jwt_for_user (tick e) = jwt_for_user e"
  "access_token_lifetime (tick e) = access_token_lifetime e"
  "refresh_token_lifetime (tick e) = refresh_token_lifetime e"
  by (simp_all add: tick_def)

lemma filter_key_unique:
  "distinct (map f rows) \<Longrightarrow> r \<in> set rows \<Longrightarrow> filter (\<lambda>x. f x = f r) rows = [r]"
proof (induction rows)
  case Nil
  then show ?case by simp
next
  case (Cons a rows)
  show ?case
  proof (cases "a = r")
    case True
    have "f r \<notin> f ` set rows" using Cons.prems(1) True by simp
    then have "filter (\<lambda>x. f x = f r) rows = []"
      unfolding filter_empty_conv by (metis imageI)
    then show ?thesis using True by simp
  next
    case False
    then have "r \<in> set rows" using Cons.prems(2) by simp
    moreover have "f a \<noteq> f r" using Cons.prems(1) calculation by auto
    ultimately show ?thesis using Cons by simp
  qed
qed

lemma objects_get_unique:
  "distinct (map f rows) \<Longrightarrow> r \<in> set rows \<Longrightarrow> f r = k \<Longrightarrow>
   objects_get (\<lambda>x. f x = k) dne rows = Inr r"
  using filter_key_unique[of f rows r] by (auto simp: objects_get_def)

lemma objects_get_absent:
  "k \<notin> set (map f rows) \<Longrightarrow> objects_get (\<lambda>x. f x = k) dne rows = Inl dne"
proof -
  assume "k \<notin> set (map f rows)"
  then have "filter (\<lambda>x. f x = k) rows = []" by (auto simp: filter_empty_conv)
  then show ?thesis by (simp add: objects_get_def)
qed

lemma objects_get_InrD:
  "objects_get p dne rows = Inr r \<Longrightarrow> filter p rows = [r]"
  by (auto simp: objects_get_def split: list.splits)

lemma objects_get_Inr_mem:
  "objects_get p dne rows = Inr r \<Longrightarrow> r \<in> set rows \<and> p r"
proof -
  assume "objects_get p dne rows = Inr r"
  then have "filter p rows = [r]" by (rule objects_get_InrD)
  then have "r \<in> set (filter p rows)" by simp
  then show ?thesis by simp
qed

lemma map_replace_by_key:
  "distinct (map pk rows) \<Longrightarrow> x \<in> set rows \<Longrightarrow> pk x' = pk x \<Longrightarrow>
   map (\<lambda>r. if pk r = pk x' then x' else r) rows = map (\<lambda>r. if r = x then x' else r) rows"
proof -
  assume d: "distinct (map pk rows)" and x: "x \<in> set rows" and k: "pk x' = pk x"
  have inj: "inj_on pk (set rows)" using d by (simp add: distinct_map)
  have "\<And>r. r \<in> set rows \<Longrightarrow> (pk r = pk x') = (r = x)"
    using inj x k by (auto dest: inj_onD)
  then show ?thesis by (intro map_cong) auto
qed

lemma update_or_insert_present:
  "distinct (map pk rows) \<Longrightarrow> x \<in> set rows \<Longrightarrow> pk x' = pk x \<Longrightarrow>
   update_or_insert pk x' rows = map (\<lambda>r. if r = x then x' else r) rows"
  using map_replace_by_key[of pk rows x x'] by (auto simp: update_or_insert_def)

lemma filter_map_replace:
  "filter p rows = [x] \<Longrightarrow> p x' \<Longrightarrow> filter p (map (\<lambda>r. if r = x then x' else r) rows) = [x']"
proof (induction rows)
  case Nil
  then show ?case by simp
next
  case (Cons a rows)
  show ?case
  proof (cases "p a")
    case True
    then have a: "a = x" and rest: "filter p rows = []" using Cons.prems(1) by auto
    have "x \<notin> set rows" using rest Cons.prems(1) True a by (auto simp: filter_empty_conv)
    then have "map (\<lambda>r. if r = x then x' else r) rows = rows" by (induction rows) auto
    then show ?thesis using a rest Cons.prems(2) by simp
  next
    case False
    have "x \<in> set (filter p (a # rows))" unfolding Cons.prems(1) by simp
    then have "p x" unfolding set_filter by blast
    then have "a \<noteq> x" using False by auto
    then show ?thesis using False Cons by simp
  qed
qed

lemma pk_belowD: "pk_below n k \<Longrightarrow> \<exists>i. k = Some i \<and> i < n"
  by (cases k) auto

lemma related_user_id:
  "related_user uid s = Inr u \<Longrightarrow> user_id u = Some uid \<and> u \<in> set (users s)"
  unfolding related_user_def by (drule objects_get_Inr_mem) simp

lemma wf_related_user:
  assumes wf: "wf_state s" and v: "v \<in> set (email_verifications s)"
  shows "\<exists>u. related_user (ev_user_id v) s = Inr u"
proof -
  have fk: "Some (ev_user_id v) \<in> set (map user_id (users s))"
    using wf v by (auto simp: wf_state_def wf_email_verifications_def list_all_iff)
  then obtain u where u: "u \<in> set (users s)" "user_id u = Some (ev_user_id v)" by auto
  have "distinct (map user_id (users s))" using wf by (simp add: wf_state_def wf_users_def)
  from objects_get_unique[OF this u(1) u(2)] show ?thesis by (auto simp: related_user_def)
qed

lemma wf_state0: "wf_state state0"
  by (simp add: wf_state_def wf_users_def wf_email_verifications_def wf_password_resets_def
      state0_def user0_def ev0_def)

lemma wf_empty_state: "wf_state empty_state"
  by (simp add: wf_state_def wf_users_def wf_email_verifications_def wf_password_resets_def
      empty_state_def)

section \<open>EmailVerification.verify (models.py)\<close>

lemma EmailVerification_verify_not_expired:
  assumes ex: "ev_expires_at v = Some t"
    and le: "now e \<le> t"
    and ru: "related_user (ev_user_id v) s = Inr u"
    and pk: "ev_id v = Some i"
  shows "EmailVerification_verify e v s =
           (Inr True,
            s\<lparr>users := update_or_insert user_id (u\<lparr>email_verified := True\<rparr>) (users s),
              email_verifications :=
                update_or_insert ev_id (v\<lparr>ev_is_verified := True\<rparr>) (email_verifications s)\<rparr>)"
proof -
  have uid: "user_id u = Some (ev_user_id v)" using related_user_id[OF ru] by simp
  have ne: "\<not> now e > t" using le by simp
  show ?thesis
    using ex ne ru pk uid
    by (simp add: EmailVerification_verify_def EmailVerification_is_expired_def User_save_def
        EmailVerification_save_def EmailVerification_super_save_def)
qed

lemma EmailVerification_verify_expired:
  "ev_expires_at v = Some t \<Longrightarrow> now e > t \<Longrightarrow> EmailVerification_verify e v s = (Inr False, s)"
  by (simp add: EmailVerification_verify_def EmailVerification_is_expired_def)

text \<open>
  C1. \<open>verify()\<close> on a token that is not expired returns \<open>True\<close>, marks the token and the
  user's email verified and saves both, but it does not touch \<open>is_active\<close>: the user
  registration created inactive stays inactive. The view's own path sets the flag.
\<close>

theorem verify_leaves_user_inactive:
  "EmailVerification_is_expired env0 ev0 = Inr False
   \<and> related_user (ev_user_id ev0) state0 = Inr user0
   \<and> EmailVerification_verify env0 ev0 state0 =
       (Inr True,
        state0\<lparr>users := [user0\<lparr>email_verified := True\<rparr>],
               email_verifications := [ev0\<lparr>ev_is_verified := True\<rparr>]\<rparr>)
   \<and> is_active (user0\<lparr>email_verified := True\<rparr>) = False
   \<and> users (snd (EmailVerificationView_get env0 5 state0)) =
       [user0\<lparr>email_verified := True, is_active := True\<rparr>]"
  by (simp add: EmailVerification_verify_def EmailVerification_is_expired_def
      EmailVerificationView_get_def env0_def ev0_def state0_def user0_def related_user_def
      objects_get_def User_save_def update_or_insert_def EmailVerification_save_def
      EmailVerification_super_save_def send_welcome_email_def timedelta_hours_def)

section \<open>EmailVerificationView.get\<close>

lemma EmailVerificationView_get_fresh:
  assumes lk: "objects_get (\<lambda>v. ev_token v = token) EmailVerification_DoesNotExist
                 (email_verifications s) = Inr v"
    and nv: "\<not> ev_is_verified v"
    and ex: "ev_expires_at v = Some t"
    and le: "now e \<le> t"
    and ru: "related_user (ev_user_id v) s = Inr u"
    and pk: "ev_id v = Some i"
  shows "EmailVerificationView_get e token s =
           (Inr (verify_success (email u)),
            s\<lparr>users := update_or_insert user_id (u\<lparr>email_verified := True, is_active := True\<rparr>) (users s),
              email_verifications :=
                update_or_insert ev_id (v\<lparr>ev_is_verified := True\<rparr>) (email_verifications s),
              outbox := (if send_mail_ok e then outbox s @ [WelcomeEmail (email u)] else outbox s)\<rparr>)"
proof -
  have uid: "user_id u = Some (ev_user_id v)" using related_user_id[OF ru] by simp
  have ne: "\<not> now e > t" using le by simp
  show ?thesis
    using lk nv ex ne ru pk uid
    by (simp add: EmailVerificationView_get_def EmailVerification_is_expired_def User_save_def
        EmailVerification_save_def EmailVerification_super_save_def send_welcome_email_def
        verify_success_def)
qed

lemma EmailVerificationView_get_consumed:
  assumes lk: "objects_get (\<lambda>v. ev_token v = token) EmailVerification_DoesNotExist
                 (email_verifications s) = Inr v"
    and c: "ev_is_verified v"
  shows "EmailVerificationView_get e token s = (Inr verify_AlreadyVerifiedError, s)"
  using lk c by (simp add: EmailVerificationView_get_def verify_AlreadyVerifiedError_def)

text \<open>
  C2, as stated: a token presented after \<open>expires_at\<close> yields ExpiredError whatever else
  holds of it. It fails for a token that is expired and already consumed: the view tests
  \<open>is_verified\<close> first and answers AlreadyVerifiedError.
\<close>

theorem expired_consumed_token_not_ExpiredError:
  "ev_expires_at ev_consumed = Some (timedelta_hours 24)
   \<and> now env_late > timedelta_hours 24
   \<and> objects_get (\<lambda>v. ev_token v = 5) EmailVerification_DoesNotExist
        (email_verifications state_consumed) = Inr ev_consumed
   \<and> fst (EmailVerificationView_get env_late 5 state_consumed) = Inr verify_AlreadyVerifiedError
   \<and> fst (EmailVerificationView_get env_late 5 state_consumed) \<noteq> Inr verify_ExpiredError"
  by (simp add: EmailVerificationView_get_def env_late_def ev_consumed_def state_consumed_def
      env0_def ev0_def state0_def objects_get_def timedelta_hours_def
      verify_AlreadyVerifiedError_def verify_ExpiredError_def)

text \<open>
  C2, amended: a stored token presented after \<open>expires_at\<close> never yields success and
  leaves the store as it is; the answer is ExpiredError when the token has not been
  consumed and AlreadyVerifiedError when it has.
\<close>

theorem verify_expired_token:
  assumes lk: "objects_get (\<lambda>v. ev_token v = token) EmailVerification_DoesNotExist
                 (email_verifications s) = Inr v"
    and ex: "ev_expires_at v = Some t"
    and gt: "now e > t"
  shows "EmailVerificationView_get e token s =
           (Inr (if ev_is_verified v then verify_AlreadyVerifiedError else verify_ExpiredError), s)
         \<and> \<not> response_success
               (if ev_is_verified v then verify_AlreadyVerifiedError else verify_ExpiredError)"
  using lk ex gt
  by (simp add: EmailVerificationView_get_def EmailVerification_is_expired_def
      verify_AlreadyVerifiedError_def verify_ExpiredError_def)

theorem verify_expired_token_witness:
  "objects_get (\<lambda>v. ev_token v = 5) EmailVerification_DoesNotExist
     (email_verifications state0) = Inr ev0
   \<and> ev_expires_at ev0 = Some (timedelta_hours 24)
   \<and> now env_late > timedelta_hours 24
   \<and> EmailVerificationView_get env_late 5 state0 = (Inr verify_ExpiredError, state0)
   \<and> \<not> response_success verify_ExpiredError"
proof -
  have h1: "objects_get (\<lambda>v. ev_token v = 5) EmailVerification_DoesNotExist
              (email_verifications state0) = Inr ev0"
    by (simp add: objects_get_def state0_def ev0_def)
  have h2: "ev_expires_at ev0 = Some (timedelta_hours 24)" by (simp add: ev0_def)
  have h3: "now env_late > timedelta_hours 24"
    by (simp add: env_late_def timedelta_hours_def)
  have nv: "\<not> ev_is_verified ev0" by (simp add: ev0_def)
  from verify_expired_token[OF h1 h2 h3] nv
  have c: "EmailVerificationView_get env_late 5 state0 = (Inr verify_ExpiredError, state0)
           \<and> \<not> response_success verify_ExpiredError"
    by simp
  show ?thesis using h1 h2 h3 c by simp
qed

text \<open>
  C3. On a store that satisfies the schema's constraints, a stored token that is neither
  consumed nor expired, presented twice: the first call succeeds and leaves the user with
  \<open>email_verified\<close> and \<open>is_active\<close> set; the second call, at any later time, answers
  AlreadyVerifiedError and returns the store, tokens and users, as it found it.
\<close>

theorem verify_twice:
  assumes wf: "wf_state s"
    and lk: "objects_get (\<lambda>v. ev_token v = token) EmailVerification_DoesNotExist
               (email_verifications s) = Inr v"
    and nv: "\<not> ev_is_verified v"
    and ex: "ev_expires_at v = Some t"
    and le: "now e1 \<le> t"
  shows "\<exists>u s1. related_user (ev_user_id v) s = Inr u
           \<and> EmailVerificationView_get e1 token s = (Inr (verify_success (email u)), s1)
           \<and> related_user (ev_user_id v) s1 = Inr (u\<lparr>email_verified := True, is_active := True\<rparr>)
           \<and> EmailVerificationView_get e2 token s1 = (Inr verify_AlreadyVerifiedError, s1)"
proof -
  let ?evs = "email_verifications s"
  have vin: "v \<in> set ?evs" and tok: "ev_token v = token"
    using objects_get_Inr_mem[OF lk] by simp_all
  obtain u where ru: "related_user (ev_user_id v) s = Inr u"
    using wf_related_user[OF wf vin] by blast
  have uin: "u \<in> set (users s)" and uid: "user_id u = Some (ev_user_id v)"
    using related_user_id[OF ru] by simp_all
  have "pk_below (next_ev_id s) (ev_id v)"
    using wf vin by (auto simp: wf_state_def wf_email_verifications_def list_all_iff)
  then obtain i where pk: "ev_id v = Some i" using pk_belowD by blast
  let ?u' = "u\<lparr>email_verified := True, is_active := True\<rparr>"
  let ?v' = "v\<lparr>ev_is_verified := True\<rparr>"
  let ?s1 = "s\<lparr>users := update_or_insert user_id ?u' (users s),
               email_verifications := update_or_insert ev_id ?v' ?evs,
               outbox := (if send_mail_ok e1 then outbox s @ [WelcomeEmail (email u)] else outbox s)\<rparr>"
  have first: "EmailVerificationView_get e1 token s = (Inr (verify_success (email u)), ?s1)"
    by (rule EmailVerificationView_get_fresh[OF lk nv ex le ru pk])
  have du: "distinct (map user_id (users s))" and dv: "distinct (map ev_id ?evs)"
    using wf by (simp_all add: wf_state_def wf_users_def wf_email_verifications_def)
  have users1: "users ?s1 = map (\<lambda>r. if r = u then ?u' else r) (users s)"
    using update_or_insert_present[OF du uin, of ?u'] by simp
  have evs1: "email_verifications ?s1 = map (\<lambda>r. if r = v then ?v' else r) ?evs"
    using update_or_insert_present[OF dv vin, of ?v'] by simp
  have fu: "filter (\<lambda>r. user_id r = Some (ev_user_id v)) (users s) = [u]"
    using ru unfolding related_user_def by (rule objects_get_InrD)
  have "filter (\<lambda>r. user_id r = Some (ev_user_id v)) (users ?s1) = [?u']"
    unfolding users1 by (rule filter_map_replace[OF fu]) (simp add: uid)
  then have ru1: "related_user (ev_user_id v) ?s1 = Inr ?u'"
    by (simp add: related_user_def objects_get_def)
  have fv: "filter (\<lambda>r. ev_token r = token) ?evs = [v]"
    using lk by (rule objects_get_InrD)
  have "filter (\<lambda>r. ev_token r = token) (email_verifications ?s1) = [?v']"
    unfolding evs1 by (rule filter_map_replace[OF fv]) (simp add: tok)
  then have lk1: "objects_get (\<lambda>v. ev_token v = token) EmailVerification_DoesNotExist
                    (email_verifications ?s1) = Inr ?v'"
    by (simp add: objects_get_def)
  have second: "EmailVerificationView_get e2 token ?s1 = (Inr verify_AlreadyVerifiedError, ?s1)"
    by (rule EmailVerificationView_get_consumed[OF lk1]) simp
  show ?thesis using ru first ru1 second by blast
qed

theorem verify_twice_witness:
  "wf_state state0
   \<and> objects_get (\<lambda>v. ev_token v = 5) EmailVerification_DoesNotExist
        (email_verifications state0) = Inr ev0
   \<and> \<not> ev_is_verified ev0
   \<and> ev_expires_at ev0 = Some (timedelta_hours 24)
   \<and> now env0 \<le> timedelta_hours 24
   \<and> (\<exists>u s1. related_user (ev_user_id ev0) state0 = Inr u
         \<and> EmailVerificationView_get env0 5 state0 = (Inr (verify_success (email u)), s1)
         \<and> related_user (ev_user_id ev0) s1 = Inr (u\<lparr>email_verified := True, is_active := True\<rparr>)
         \<and> EmailVerificationView_get env_late 5 s1 = (Inr verify_AlreadyVerifiedError, s1))"
proof -
  have h2: "objects_get (\<lambda>v. ev_token v = 5) EmailVerification_DoesNotExist
              (email_verifications state0) = Inr ev0"
    by (simp add: objects_get_def state0_def ev0_def)
  have h3: "\<not> ev_is_verified ev0" by (simp add: ev0_def)
  have h4: "ev_expires_at ev0 = Some (timedelta_hours 24)" by (simp add: ev0_def)
  have h5: "now env0 \<le> timedelta_hours 24" by (simp add: env0_def timedelta_hours_def)
  note c = verify_twice[OF wf_state0 h2 h3 h4 h5, of env_late]
  show ?thesis using wf_state0 h2 h3 h4 h5 c by (intro conjI)
qed

section \<open>PasswordReset.can_reset and ResetPasswordView.post\<close>

lemma PasswordReset_can_reset_iff:
  "pr_expires_at r = Some t \<Longrightarrow> PasswordReset_can_reset e r = Inr (\<not> pr_is_used r \<and> now e \<le> t)"
  by (auto simp: PasswordReset_can_reset_def PasswordReset_is_expired_def)

lemma ResetPasswordView_post_invalid:
  "ResetPasswordSerializer_is_valid req = Inl errors \<Longrightarrow>
   ResetPasswordView_post e req s =
     (Inr (Response [(''success'', JBool False), (''errors'', JObj errors)] 400), s)"
  by (simp add: ResetPasswordView_post_def)

lemma ResetPasswordSerializer_is_valid_Inr:
  "ResetPasswordSerializer_is_valid req = Inr d \<Longrightarrow> reset_token d = reset_token req"
  by (auto simp: ResetPasswordSerializer_is_valid_def Let_def split: if_splits)

lemma ResetPasswordView_post_dead:
  assumes valid: "ResetPasswordSerializer_is_valid req = Inr d"
    and lk: "objects_get (\<lambda>r. pr_token r = reset_token req) PasswordReset_DoesNotExist
               (password_resets s) = Inr r"
    and ex: "pr_expires_at r = Some t"
    and dead: "pr_is_used r \<or> t < now e"
  shows "ResetPasswordView_post e req s =
           (Inr (if pr_is_used r then reset_AlreadyUsedError else reset_ExpiredError), s)"
proof -
  have tk: "reset_token d = reset_token req"
    using valid by (rule ResetPasswordSerializer_is_valid_Inr)
  show ?thesis
    using valid lk ex dead
    by (auto simp: ResetPasswordView_post_def tk PasswordReset_is_expired_def
        reset_AlreadyUsedError_def reset_ExpiredError_def)
qed

text \<open>
  C4, amended: \<open>can_reset()\<close> holds exactly when the token is unused and
  \<open>now \<le> expires_at\<close>. A request that presents a stored token for which it does not hold
  leaves the store, and with it the user's password hash, as it is; when the request passes
  the serializer's validation the answer is AlreadyUsedError for a used token and
  ExpiredError for an unused, expired one.
\<close>

theorem reset_with_dead_token:
  assumes lk: "objects_get (\<lambda>r. pr_token r = reset_token req) PasswordReset_DoesNotExist
                 (password_resets s) = Inr r"
    and ex: "pr_expires_at r = Some t"
  shows "PasswordReset_can_reset e r = Inr (\<not> pr_is_used r \<and> now e \<le> t)
         \<and> (pr_is_used r \<or> t < now e \<longrightarrow>
              snd (ResetPasswordView_post e req s) = s
              \<and> (ResetPasswordSerializer_is_valid req = Inr d \<longrightarrow>
                   fst (ResetPasswordView_post e req s) =
                     Inr (if pr_is_used r then reset_AlreadyUsedError else reset_ExpiredError)))"
proof (intro conjI impI)
  show "PasswordReset_can_reset e r = Inr (\<not> pr_is_used r \<and> now e \<le> t)"
    using ex by (rule PasswordReset_can_reset_iff)
next
  assume dead: "pr_is_used r \<or> t < now e"
  show "snd (ResetPasswordView_post e req s) = s"
  proof (cases "ResetPasswordSerializer_is_valid req")
    case (Inl errors)
    then show ?thesis by (simp add: ResetPasswordView_post_invalid)
  next
    case (Inr d')
    show ?thesis by (simp add: ResetPasswordView_post_dead[OF Inr lk ex dead])
  qed
next
  assume dead: "pr_is_used r \<or> t < now e"
    and valid: "ResetPasswordSerializer_is_valid req = Inr d"
  show "fst (ResetPasswordView_post e req s) =
          Inr (if pr_is_used r then reset_AlreadyUsedError else reset_ExpiredError)"
    by (simp add: ResetPasswordView_post_dead[OF valid lk ex dead])
qed

lemma reset_request_short_invalid:
  "ResetPasswordSerializer_is_valid reset_request_short =
     Inl [(''new_password'', JList [JStr ''Password must be at least 8 characters long.''])]"
  by code_simp

lemma reset_request_good_valid:
  "ResetPasswordSerializer_is_valid reset_request_good = Inr reset_request_good"
  by code_simp

text \<open>
  C4, as stated: every request that presents a used or expired token is answered with
  AlreadyUsedError or ExpiredError. It fails for a request whose new password the policy
  rejects: the serializer's errors are returned before the token is looked up.
\<close>

theorem reset_invalid_request_not_AlreadyUsedError:
  "objects_get (\<lambda>r. pr_token r = reset_token reset_request_short) PasswordReset_DoesNotExist
     (password_resets state_reset) = Inr pr_used
   \<and> PasswordReset_can_reset env0 pr_used = Inr False
   \<and> fst (ResetPasswordView_post env0 reset_request_short state_reset) =
       Inr (Response [(''success'', JBool False),
                      (''errors'', JObj [(''new_password'',
                          JList [JStr ''Password must be at least 8 characters long.''])])] 400)
   \<and> fst (ResetPasswordView_post env0 reset_request_short state_reset) \<noteq> Inr reset_AlreadyUsedError
   \<and> fst (ResetPasswordView_post env0 reset_request_short state_reset) \<noteq> Inr reset_ExpiredError"
proof -
  have v: "fst (ResetPasswordView_post env0 reset_request_short state_reset) =
       Inr (Response [(''success'', JBool False),
                      (''errors'', JObj [(''new_password'',
                          JList [JStr ''Password must be at least 8 characters long.''])])] 400)"
    by (simp add: ResetPasswordView_post_def reset_request_short_invalid)
  show ?thesis
    unfolding v
    by (simp add: reset_request_short_def state_reset_def pr_used_def objects_get_def
        PasswordReset_can_reset_def reset_AlreadyUsedError_def reset_ExpiredError_def)
qed

theorem reset_with_dead_token_witness:
  "objects_get (\<lambda>r. pr_token r = reset_token reset_request_good) PasswordReset_DoesNotExist
     (password_resets state_reset) = Inr pr_used
   \<and> pr_expires_at pr_used = Some (timedelta_hours 1)
   \<and> pr_is_used pr_used
   \<and> ResetPasswordSerializer_is_valid reset_request_good = Inr reset_request_good
   \<and> PasswordReset_can_reset env0 pr_used = Inr False
   \<and> snd (ResetPasswordView_post env0 reset_request_good state_reset) = state_reset
   \<and> fst (ResetPasswordView_post env0 reset_request_good state_reset) = Inr reset_AlreadyUsedError"
proof -
  have h1: "objects_get (\<lambda>r. pr_token r = reset_token reset_request_good) PasswordReset_DoesNotExist
              (password_resets state_reset) = Inr pr_used"
    by (simp add: objects_get_def reset_request_good_def state_reset_def pr_used_def)
  have h2: "pr_expires_at pr_used = Some (timedelta_hours 1)" by (simp add: pr_used_def)
  have h3: "pr_is_used pr_used" by (simp add: pr_used_def)
  note c = reset_with_dead_token[OF h1 h2, of env0 reset_request_good]
  show ?thesis using h1 h2 h3 reset_request_good_valid c by simp
qed

section \<open>UserLoginView.post\<close>

lemma UserLoginSerializer_is_valid_check_password:
  "UserLoginSerializer_is_valid (e\<lparr>check_password := c\<rparr>) req = UserLoginSerializer_is_valid e req"
  by (simp add: UserLoginSerializer_is_valid_def EmailValidator_errors_def)

lemma UserLoginView_post_valid:
  assumes "UserLoginSerializer_is_valid e req = Inr d"
    and "objects_get (\<lambda>u. email u = login_email d) User_DoesNotExist (users s) = r"
  shows "UserLoginView_post e req s =
     (case r of
        Inl x \<Rightarrow> if x = User_DoesNotExist then (Inr login_InvalidCredentialsError, s) else (Inl x, s)
      | Inr u \<Rightarrow>
          if \<not> email_verified u then (Inr login_UnverifiedEmailError, s)
          else if \<not> is_active u then (Inr login_DeactivatedError, s)
          else if \<not> check_password e (login_password d) (password u)
          then (Inr login_InvalidCredentialsError, s)
          else UserLoginView_post e req s)"
  using assms
  by (auto simp: UserLoginView_post_def login_InvalidCredentialsError_def
      login_UnverifiedEmailError_def login_DeactivatedError_def split: sum.splits)

text \<open>
  C6, amended: for every login request that passes the serializer's validation (the
  address is one the EmailField accepts, the password is not blank; the validated data
  hold the stripped values): a user found with \<open>email_verified\<close> false gets
  UnverifiedEmailError, whatever the password; one found verified but not active gets
  DeactivatedError; an unknown email and a wrong password for a verified, active user
  get the same InvalidCredentialsError. The store is left as it is in each case.
\<close>

theorem login_gates:
  assumes valid: "UserLoginSerializer_is_valid e req = Inr d"
  shows "(\<forall>u. objects_get (\<lambda>u. email u = login_email d) User_DoesNotExist (users s) = Inr u
              \<and> \<not> email_verified u
            \<longrightarrow> UserLoginView_post e req s = (Inr login_UnverifiedEmailError, s))
       \<and> (\<forall>u. objects_get (\<lambda>u. email u = login_email d) User_DoesNotExist (users s) = Inr u
              \<and> email_verified u \<and> \<not> is_active u
            \<longrightarrow> UserLoginView_post e req s = (Inr login_DeactivatedError, s))
       \<and> (objects_get (\<lambda>u. email u = login_email d) User_DoesNotExist (users s) = Inl User_DoesNotExist
            \<longrightarrow> UserLoginView_post e req s = (Inr login_InvalidCredentialsError, s))
       \<and> (\<forall>u. objects_get (\<lambda>u. email u = login_email d) User_DoesNotExist (users s) = Inr u
              \<and> email_verified u \<and> is_active u
              \<and> \<not> check_password e (login_password d) (password u)
            \<longrightarrow> UserLoginView_post e req s = (Inr login_InvalidCredentialsError, s))"
  using UserLoginView_post_valid[OF valid refl, where s = s] by auto

text \<open>
  C10, amended: for a user found with \<open>email_verified\<close> false and every presented
  password that passes the serializer's validation (is not blank), login answers
  UnverifiedEmailError whatever the password check would say: the answer is the same
  under every \<open>check_password\<close>. The answer differs from the one an unknown email gets,
  so it reveals that the account exists.
\<close>

theorem login_unverified_before_password:
  assumes valid: "UserLoginSerializer_is_valid e req = Inr d"
    and lk: "objects_get (\<lambda>u. email u = login_email d) User_DoesNotExist (users s) = Inr u"
    and nv: "\<not> email_verified u"
    and nf: "objects_get (\<lambda>u. email u = login_email d) User_DoesNotExist (users s') =
               Inl User_DoesNotExist"
  shows "UserLoginView_post (e\<lparr>check_password := c\<rparr>) req s = (Inr login_UnverifiedEmailError, s)
       \<and> UserLoginView_post (e\<lparr>check_password := c\<rparr>) req s' = (Inr login_InvalidCredentialsError, s')
       \<and> login_UnverifiedEmailError \<noteq> login_InvalidCredentialsError"
proof -
  have valid': "UserLoginSerializer_is_valid (e\<lparr>check_password := c\<rparr>) req = Inr d"
    using valid by (simp add: UserLoginSerializer_is_valid_check_password)
  show ?thesis
    using UserLoginView_post_valid[OF valid' lk] UserLoginView_post_valid[OF valid' nf] nv
    by (simp add: login_UnverifiedEmailError_def login_InvalidCredentialsError_def)
qed

lemma login_good_valid:
  "UserLoginSerializer_is_valid env0 login_request_good =
     Inr \<lparr>login_email = ''a@x.com'', login_password = ''Passw0rd!''\<rparr>"
  by code_simp

lemma login_blank_invalid:
  "UserLoginSerializer_is_valid env0 login_request_blank =
     Inl [(''password'', JList [JStr ''This field may not be blank.''])]"
  by code_simp

lemma login_wrong_valid:
  "UserLoginSerializer_is_valid env0 login_request_wrong =
     Inr \<lparr>login_email = ''a@x.com'', login_password = ''Wrong1234''\<rparr>"
  by code_simp

lemma login_unknown_valid:
  "UserLoginSerializer_is_valid env0 login_request_unknown =
     Inr \<lparr>login_email = ''nobody@x.com'', login_password = ''Passw0rd!''\<rparr>"
  by code_simp

lemma login_padded_password_valid:
  "UserLoginSerializer_is_valid env0
     \<lparr>login_email = ''a@x.com'', login_password = '' Passw0rd! ''\<rparr> =
     Inr \<lparr>login_email = ''a@x.com'', login_password = ''Passw0rd!''\<rparr>"
  by code_simp

text \<open>
  C6, as stated for every login request: it fails for a request with an empty password,
  which the password field of the serializer refuses before the user is looked up; a
  verified, deactivated user then gets the validation error, not DeactivatedError.
\<close>

theorem login_blank_password_not_DeactivatedError:
  "login_request_blank = \<lparr>login_email = '' A@X.com'', login_password = []\<rparr>
   \<and> objects_get (\<lambda>u. email u = ''a@x.com'') User_DoesNotExist (users state_deactivated) =
        Inr (user0\<lparr>email_verified := True\<rparr>)
   \<and> email_verified (user0\<lparr>email_verified := True\<rparr>)
   \<and> \<not> is_active (user0\<lparr>email_verified := True\<rparr>)
   \<and> UserLoginView_post env0 login_request_blank state_deactivated =
        (Inr (Response [(''success'', JBool False),
                        (''errors'', JObj [(''password'', JList [JStr ''This field may not be blank.''])])]
                400), state_deactivated)
   \<and> fst (UserLoginView_post env0 login_request_blank state_deactivated) \<noteq> Inr login_DeactivatedError"
proof -
  have v: "UserLoginView_post env0 login_request_blank state_deactivated =
        (Inr (Response [(''success'', JBool False),
                        (''errors'', JObj [(''password'', JList [JStr ''This field may not be blank.''])])]
                400), state_deactivated)"
    by (simp add: UserLoginView_post_def login_blank_invalid)
  show ?thesis
    using v
    by (simp add: state_deactivated_def state0_def user0_def objects_get_def
        login_DeactivatedError_def login_request_blank_def)
qed

text \<open>
  C10, as stated for every presented password: it fails for the empty password, which
  the password field of the serializer refuses before the user is looked up.
\<close>

theorem login_blank_password_not_UnverifiedEmailError:
  "login_request_blank = \<lparr>login_email = '' A@X.com'', login_password = []\<rparr>
   \<and> objects_get (\<lambda>u. email u = ''a@x.com'') User_DoesNotExist (users state0) = Inr user0
   \<and> \<not> email_verified user0
   \<and> UserLoginView_post env0 login_request_blank state0 =
        (Inr (Response [(''success'', JBool False),
                        (''errors'', JObj [(''password'', JList [JStr ''This field may not be blank.''])])]
                400), state0)
   \<and> fst (UserLoginView_post env0 login_request_blank state0) \<noteq> Inr login_UnverifiedEmailError"
proof -
  have v: "UserLoginView_post env0 login_request_blank state0 =
        (Inr (Response [(''success'', JBool False),
                        (''errors'', JObj [(''password'', JList [JStr ''This field may not be blank.''])])]
                400), state0)"
    by (simp add: UserLoginView_post_def login_blank_invalid)
  show ?thesis
    using v
    by (simp add: state0_def user0_def objects_get_def login_UnverifiedEmailError_def
        login_request_blank_def)
qed

theorem login_gates_witness:
  "UserLoginSerializer_is_valid env0 login_request_good =
     Inr \<lparr>login_email = ''a@x.com'', login_password = ''Passw0rd!''\<rparr>
   \<and> objects_get (\<lambda>u. email u = ''a@x.com'') User_DoesNotExist (users state0) = Inr user0
   \<and> \<not> email_verified user0
   \<and> check_password env0 ''Passw0rd!'' (password user0)
   \<and> UserLoginView_post env0 login_request_good state0 = (Inr login_UnverifiedEmailError, state0)
   \<and> UserLoginView_post env0 login_request_good state_deactivated =
        (Inr login_DeactivatedError, state_deactivated)
   \<and> UserLoginView_post env0 login_request_unknown state_consumed =
        (Inr login_InvalidCredentialsError, state_consumed)
   \<and> UserLoginView_post env0 login_request_wrong state_consumed =
        (Inr login_InvalidCredentialsError, state_consumed)"
proof -
  have l0: "objects_get (\<lambda>u. email u = ''a@x.com'') User_DoesNotExist (users state0) = Inr user0"
    by (simp add: objects_get_def state0_def user0_def)
  have nv: "\<not> email_verified user0" by (simp add: user0_def)
  have cp: "check_password env0 ''Passw0rd!'' (password user0)"
    by (simp add: env0_def user0_def)
  have l1: "objects_get (\<lambda>u. email u = ''a@x.com'') User_DoesNotExist (users state_deactivated) =
              Inr (user0\<lparr>email_verified := True\<rparr>)"
    by (simp add: objects_get_def state_deactivated_def state0_def user0_def)
  have l2: "objects_get (\<lambda>u. email u = ''nobody@x.com'') User_DoesNotExist (users state_consumed) =
              Inl User_DoesNotExist"
    by (simp add: objects_get_def state_consumed_def state0_def user0_def)
  have l3: "objects_get (\<lambda>u. email u = ''a@x.com'') User_DoesNotExist (users state_consumed) =
              Inr (user0\<lparr>email_verified := True, is_active := True\<rparr>)"
    by (simp add: objects_get_def state_consumed_def state0_def user0_def)
  have w: "\<not> check_password env0 ''Wrong1234'' (password (user0\<lparr>email_verified := True, is_active := True\<rparr>))"
    by (simp add: env0_def user0_def)
  have a: "UserLoginView_post env0 login_request_good state0 = (Inr login_UnverifiedEmailError, state0)"
    using login_gates[OF login_good_valid, of state0] l0 nv by simp
  have b: "UserLoginView_post env0 login_request_good state_deactivated =
             (Inr login_DeactivatedError, state_deactivated)"
    using login_gates[OF login_good_valid, of state_deactivated] l1 by (simp add: user0_def)
  have c: "UserLoginView_post env0 login_request_unknown state_consumed =
             (Inr login_InvalidCredentialsError, state_consumed)"
    using login_gates[OF login_unknown_valid, of state_consumed] l2 by simp
  have d: "UserLoginView_post env0 login_request_wrong state_consumed =
             (Inr login_InvalidCredentialsError, state_consumed)"
    using login_gates[OF login_wrong_valid, of state_consumed] l3 w
    by (simp add: user0_def)
  show ?thesis using login_good_valid l0 nv cp a b c d by simp
qed

theorem login_unverified_before_password_witness:
  "UserLoginSerializer_is_valid env0 login_request_wrong =
     Inr \<lparr>login_email = ''a@x.com'', login_password = ''Wrong1234''\<rparr>
   \<and> objects_get (\<lambda>u. email u = ''a@x.com'') User_DoesNotExist (users state0) = Inr user0
   \<and> \<not> email_verified user0
   \<and> objects_get (\<lambda>u. email u = ''a@x.com'') User_DoesNotExist (users empty_state) =
        Inl User_DoesNotExist
   \<and> UserLoginView_post (env0\<lparr>check_password := (\<lambda>p h. True)\<rparr>) login_request_wrong state0 =
        (Inr login_UnverifiedEmailError, state0)
   \<and> UserLoginView_post (env0\<lparr>check_password := (\<lambda>p h. True)\<rparr>) login_request_wrong empty_state =
        (Inr login_InvalidCredentialsError, empty_state)
   \<and> login_UnverifiedEmailError \<noteq> login_InvalidCredentialsError"
proof -
  have l0: "objects_get (\<lambda>u. email u = login_email \<lparr>login_email = ''a@x.com'', login_password = ''Wrong1234''\<rparr>)
              User_DoesNotExist (users state0) = Inr user0"
    by (simp add: objects_get_def state0_def user0_def)
  have nv: "\<not> email_verified user0" by (simp add: user0_def)
  have l1: "objects_get (\<lambda>u. email u = login_email \<lparr>login_email = ''a@x.com'', login_password = ''Wrong1234''\<rparr>)
              User_DoesNotExist (users empty_state) = Inl User_DoesNotExist"
    by (simp add: objects_get_def empty_state_def)
  note c = login_unverified_before_password[OF login_wrong_valid l0 nv l1, where c = "\<lambda>p h. True"]
  show ?thesis using login_wrong_valid l0 nv l1 c by simp
qed

section \<open>ForgotPasswordView.post\<close>

lemma ForgotPasswordView_post_invalid:
  "ForgotPasswordSerializer_is_valid e em = Inl errors \<Longrightarrow>
   ForgotPasswordView_post e em s =
     (Inr (Response [(''success'', JBool False), (''errors'', JObj errors)] 400), s)"
  by (simp add: ForgotPasswordView_post_def)

lemma ForgotPasswordView_post_unknown:
  assumes "ForgotPasswordSerializer_is_valid e em = Inr v"
    and "objects_get (\<lambda>u. email u = v) User_DoesNotExist (users s) = Inl User_DoesNotExist"
  shows "ForgotPasswordView_post e em s = (Inr forgot_password_response, s)"
  using assms by (simp add: ForgotPasswordView_post_def)

lemma ForgotPasswordView_post_known:
  assumes valid: "ForgotPasswordSerializer_is_valid e em = Inr v"
    and lk: "objects_get (\<lambda>u. email u = v) User_DoesNotExist (users s) = Inr u"
    and pk: "user_id u = Some uid"
    and fresh: "uuid4 e \<notin> set (map pr_token (password_resets s))"
  shows "ForgotPasswordView_post e em s =
           (Inr forgot_password_response,
            s\<lparr>password_resets := password_resets s @
                  [\<lparr>pr_id = Some (next_pr_id s), pr_user_id = uid, pr_token = uuid4 e,
                    pr_created_at = Some (now (tick e)), pr_is_used = False,
                    pr_expires_at = Some (now e + timedelta_hours 1)\<rparr>],
              next_pr_id := Suc (next_pr_id s),
              outbox := (if send_mail_ok e then outbox s @ [PasswordResetEmail (email u) (uuid4 e)]
                         else outbox s)\<rparr>)"
  using valid lk pk fresh
  by (simp add: ForgotPasswordView_post_def
      PasswordReset_objects_create_def PasswordReset_save_def PasswordReset_super_save_def
      send_password_reset_email_def Let_def)

lemma wf_user_pk:
  "wf_state s \<Longrightarrow> u \<in> set (users s) \<Longrightarrow> \<exists>uid. user_id u = Some uid \<and> uid < next_user_id s"
  by (rule pk_belowD) (auto simp: wf_state_def wf_users_def list_all_iff)

text \<open>
  C7, amended: a forgot-password request whose email is that of a stored user and one
  whose email is that of no user get the same response, \<open>forgot_password_response\<close>,
  whatever the stores, clocks and mail outcomes of the two requests, when both addresses
  pass the serializer's validation (they are not blank and the EmailField accepts them).
  The store of the first satisfies the schema's constraints, and the UUID drawn for the
  new reset token is not yet stored.
\<close>

theorem forgot_password_hides_existence:
  assumes wf: "wf_state s1"
    and valid1: "ForgotPasswordSerializer_is_valid e1 em1 = Inr v1"
    and known: "objects_get (\<lambda>u. email u = v1) User_DoesNotExist (users s1) = Inr u"
    and fresh: "uuid4 e1 \<notin> set (map pr_token (password_resets s1))"
    and valid2: "ForgotPasswordSerializer_is_valid e2 em2 = Inr v2"
    and unknown: "objects_get (\<lambda>u. email u = v2) User_DoesNotExist (users s2) =
                    Inl User_DoesNotExist"
  shows "fst (ForgotPasswordView_post e1 em1 s1) = fst (ForgotPasswordView_post e2 em2 s2)
       \<and> fst (ForgotPasswordView_post e1 em1 s1) = Inr forgot_password_response"
proof -
  have "u \<in> set (users s1)" using objects_get_Inr_mem[OF known] by simp
  then obtain uid where pk: "user_id u = Some uid" using wf_user_pk[OF wf] by blast
  show ?thesis
    using ForgotPasswordView_post_known[OF valid1 known pk fresh]
          ForgotPasswordView_post_unknown[OF valid2 unknown]
    by simp
qed

lemma forgot_known_valid:
  "ForgotPasswordSerializer_is_valid env0 '' A@X.com'' = Inr ''a@x.com''"
  by code_simp

lemma forgot_unknown_valid:
  "ForgotPasswordSerializer_is_valid env_late ''nobody@x.com'' = Inr ''nobody@x.com''"
  by code_simp

lemma forgot_malformed_invalid:
  "ForgotPasswordSerializer_is_valid e ''notanemail'' =
     Inl [(''email'', JList [JStr ''Enter a valid email address.''])]"
  by (simp add: ForgotPasswordSerializer_is_valid_def CharField_run_validation_def
      str_strip_def py_isspace_def ProhibitNullCharactersValidator_def
      EmailValidator_errors_def then_hook_def field_error_def Let_def)

text \<open>
  C7, as stated for every pair of requests: it fails when the address that belongs to
  no user is one the EmailField refuses. The request for the stored user's address gets
  the success response; the request for \<open>notanemail\<close>, which no user has, gets the
  serializer's errors with status 400, whatever Django's validator decides on the parts
  of an address.
\<close>

theorem forgot_malformed_address_not_same_response:
  "objects_get (\<lambda>u. email u = ''a@x.com'') User_DoesNotExist (users state0) = Inr user0
   \<and> filter (\<lambda>u. email u = ''notanemail'') (users state0) = []
   \<and> fst (ForgotPasswordView_post env0 '' A@X.com'' state0) = Inr forgot_password_response
   \<and> fst (ForgotPasswordView_post env0 ''notanemail'' state0) =
       Inr (Response [(''success'', JBool False),
                      (''errors'', JObj [(''email'', JList [JStr ''Enter a valid email address.''])])]
              400)
   \<and> fst (ForgotPasswordView_post env0 '' A@X.com'' state0) \<noteq>
       fst (ForgotPasswordView_post env0 ''notanemail'' state0)"
proof -
  have l0: "objects_get (\<lambda>u. email u = ''a@x.com'') User_DoesNotExist (users state0) = Inr user0"
    by (simp add: objects_get_def state0_def user0_def)
  have pk: "user_id user0 = Some 1" by (simp add: user0_def)
  have fr: "uuid4 env0 \<notin> set (map pr_token (password_resets state0))"
    by (simp add: state0_def)
  have a: "fst (ForgotPasswordView_post env0 '' A@X.com'' state0) = Inr forgot_password_response"
    by (simp add: ForgotPasswordView_post_known[OF forgot_known_valid l0 pk fr])
  have b: "fst (ForgotPasswordView_post env0 ''notanemail'' state0) =
       Inr (Response [(''success'', JBool False),
                      (''errors'', JObj [(''email'', JList [JStr ''Enter a valid email address.''])])]
              400)"
    by (simp add: ForgotPasswordView_post_invalid[OF forgot_malformed_invalid])
  have c: "filter (\<lambda>u. email u = ''notanemail'') (users state0) = []"
    by (simp add: state0_def user0_def)
  show ?thesis
    unfolding a b using l0 c by (simp add: forgot_password_response_def)
qed

theorem forgot_password_hides_existence_witness:
  "wf_state state0
   \<and> ForgotPasswordSerializer_is_valid env0 '' A@X.com'' = Inr ''a@x.com''
   \<and> objects_get (\<lambda>u. email u = ''a@x.com'') User_DoesNotExist (users state0) = Inr user0
   \<and> uuid4 env0 \<notin> set (map pr_token (password_resets state0))
   \<and> ForgotPasswordSerializer_is_valid env_late ''nobody@x.com'' = Inr ''nobody@x.com''
   \<and> objects_get (\<lambda>u. email u = ''nobody@x.com'') User_DoesNotExist (users state0) =
        Inl User_DoesNotExist
   \<and> fst (ForgotPasswordView_post env0 '' A@X.com'' state0) =
       fst (ForgotPasswordView_post env_late ''nobody@x.com'' state0)
   \<and> fst (ForgotPasswordView_post env0 '' A@X.com'' state0) = Inr forgot_password_response"
proof -
  have h2: "objects_get (\<lambda>u. email u = ''a@x.com'') User_DoesNotExist (users state0) = Inr user0"
    by (simp add: objects_get_def state0_def user0_def)
  have h3: "uuid4 env0 \<notin> set (map pr_token (password_resets state0))"
    by (simp add: state0_def)
  have h4: "objects_get (\<lambda>u. email u = ''nobody@x.com'') User_DoesNotExist
              (users state0) = Inl User_DoesNotExist"
    by (simp add: objects_get_def state0_def user0_def)
  note c = forgot_password_hides_existence[OF wf_state0 forgot_known_valid h2 h3
             forgot_unknown_valid h4]
  show ?thesis
    using wf_state0 forgot_known_valid h2 h3 forgot_unknown_valid h4
      c[THEN conjunct1] c[THEN conjunct2] by (intro conjI)
qed

section \<open>ResendVerificationEmailView.post\<close>

lemma str_lower_Nil: "str_strip (str_lower []) = []"
  by (simp add: str_strip_def str_lower_def)

lemma ResendVerificationEmailView_post_verified:
  assumes "em \<noteq> []"
    and "objects_get (\<lambda>u. email u = str_strip (str_lower em)) User_DoesNotExist (users s) = Inr u"
    and "email_verified u"
  shows "ResendVerificationEmailView_post e (Some em) s = (Inr resend_AlreadyVerifiedError, s)"
  using assms by (simp add: ResendVerificationEmailView_post_def resend_AlreadyVerifiedError_def)

lemma ResendVerificationEmailView_post_unknown:
  assumes "em \<noteq> []"
    and "objects_get (\<lambda>u. email u = str_strip (str_lower em)) User_DoesNotExist (users s) =
           Inl User_DoesNotExist"
  shows "ResendVerificationEmailView_post e (Some em) s = (Inr resend_not_found_response, s)"
  using assms by (simp add: ResendVerificationEmailView_post_def resend_not_found_response_def)

lemma ResendVerificationEmailView_post_unverified:
  assumes ne: "em \<noteq> []"
    and lk: "objects_get (\<lambda>u. email u = str_strip (str_lower em)) User_DoesNotExist (users s) = Inr u"
    and nv: "\<not> email_verified u"
    and pk: "user_id u = Some uid"
    and fresh: "uuid4 e \<notin> set (map ev_token (filter (\<lambda>v. ev_user_id v \<noteq> uid) (email_verifications s)))"
  shows "ResendVerificationEmailView_post e (Some em) s =
           (Inr (resend_sent_response (email u) (send_mail_ok e)),
            s\<lparr>email_verifications :=
                 filter (\<lambda>v. ev_user_id v \<noteq> uid) (email_verifications s) @
                  [\<lparr>ev_id = Some (next_ev_id s), ev_user_id = uid, ev_token = uuid4 e,
                    ev_created_at = Some (now (tick e)), ev_is_verified = False,
                    ev_expires_at = Some (now e + timedelta_hours 24)\<rparr>],
              next_ev_id := Suc (next_ev_id s),
              outbox := (if send_mail_ok e then outbox s @ [VerificationEmail (email u) (uuid4 e)]
                         else outbox s)\<rparr>)"
  using ne lk nv pk fresh
  by (simp add: ResendVerificationEmailView_post_def delete_verifications_of_def
      EmailVerification_objects_create_def EmailVerification_save_def
      EmailVerification_super_save_def send_verification_email_def resend_sent_response_def Let_def)

lemma wf_user_email: "wf_state s \<Longrightarrow> u \<in> set (users s) \<Longrightarrow> email u \<noteq> []"
  by (auto simp: wf_state_def wf_users_def list_all_iff)

text \<open>
  C9. On a store that satisfies the schema's constraints, a resend-verification request
  whose email is that of a stored user: when the user is verified the answer is
  AlreadyVerifiedError and the store is left as it is; otherwise every verification token
  of the user is deleted and one is issued, so that afterwards exactly one token of the
  user is stored, the new one: unconsumed, with the UUID drawn (not yet stored) and an
  expiry 24 hours from now. The tokens of other users stay.
\<close>

theorem resend_verification_existing_user:
  assumes wf: "wf_state s"
    and lk: "objects_get (\<lambda>u. email u = str_strip (str_lower em)) User_DoesNotExist (users s) = Inr u"
    and fresh: "uuid4 e \<notin> set (map ev_token (email_verifications s))"
  shows "(email_verified u \<longrightarrow>
            ResendVerificationEmailView_post e (Some em) s = (Inr resend_AlreadyVerifiedError, s))
       \<and> (\<not> email_verified u \<longrightarrow>
            (\<exists>uid v s'.
               user_id u = Some uid
               \<and> ResendVerificationEmailView_post e (Some em) s =
                   (Inr (resend_sent_response (email u) (send_mail_ok e)), s')
               \<and> filter (\<lambda>w. ev_user_id w = uid) (email_verifications s') = [v]
               \<and> ev_token v = uuid4 e \<and> \<not> ev_is_verified v
               \<and> ev_expires_at v = Some (now e + timedelta_hours 24)
               \<and> v \<notin> set (email_verifications s)
               \<and> filter (\<lambda>w. ev_user_id w \<noteq> uid) (email_verifications s') =
                   filter (\<lambda>w. ev_user_id w \<noteq> uid) (email_verifications s)))"
proof -
  have uin: "u \<in> set (users s)" and em_u: "email u = str_strip (str_lower em)"
    using objects_get_Inr_mem[OF lk] by simp_all
  have ne: "em \<noteq> []" using wf_user_email[OF wf uin] em_u str_lower_Nil by auto
  obtain uid where pk: "user_id u = Some uid" using wf_user_pk[OF wf uin] by blast
  have fresh': "uuid4 e \<notin> set (map ev_token (filter (\<lambda>v. ev_user_id v \<noteq> uid) (email_verifications s)))"
    using fresh by auto
  let ?v = "\<lparr>ev_id = Some (next_ev_id s), ev_user_id = uid, ev_token = uuid4 e,
             ev_created_at = Some (now (tick e)), ev_is_verified = False,
             ev_expires_at = Some (now e + timedelta_hours 24)\<rparr>"
  have new: "?v \<notin> set (email_verifications s)"
  proof
    assume "?v \<in> set (email_verifications s)"
    then have "ev_token ?v \<in> ev_token ` set (email_verifications s)" by (rule imageI)
    then show False using fresh by simp
  qed
  show ?thesis
  proof (intro conjI impI)
    assume "email_verified u"
    then show "ResendVerificationEmailView_post e (Some em) s = (Inr resend_AlreadyVerifiedError, s)"
      using ResendVerificationEmailView_post_verified[OF ne lk] by simp
  next
    assume nv: "\<not> email_verified u"
    note r = ResendVerificationEmailView_post_unverified[OF ne lk nv pk fresh']
    show "\<exists>uid v s'.
               user_id u = Some uid
               \<and> ResendVerificationEmailView_post e (Some em) s =
                   (Inr (resend_sent_response (email u) (send_mail_ok e)), s')
               \<and> filter (\<lambda>w. ev_user_id w = uid) (email_verifications s') = [v]
               \<and> ev_token v = uuid4 e \<and> \<not> ev_is_verified v
               \<and> ev_expires_at v = Some (now e + timedelta_hours 24)
               \<and> v \<notin> set (email_verifications s)
               \<and> filter (\<lambda>w. ev_user_id w \<noteq> uid) (email_verifications s') =
                   filter (\<lambda>w. ev_user_id w \<noteq> uid) (email_verifications s)"
      apply (rule exI[of _ uid], rule exI[of _ ?v], rule exI)
      apply (intro conjI)
             apply (rule pk)
            apply (rule r)
      using new by simp_all
  qed
qed


lemma wf_state_consumed: "wf_state state_consumed"
  by (simp add: wf_state_def wf_users_def wf_email_verifications_def wf_password_resets_def
      state_consumed_def state0_def user0_def ev0_def ev_consumed_def)

theorem resend_verification_existing_user_witness:
  "wf_state state0
   \<and> objects_get (\<lambda>u. email u = str_strip (str_lower '' A@X.com'')) User_DoesNotExist
        (users state0) = Inr user0
   \<and> uuid4 env0 \<notin> set (map ev_token (email_verifications state0))
   \<and> \<not> email_verified user0
   \<and> (\<exists>uid v s'.
         user_id user0 = Some uid
         \<and> ResendVerificationEmailView_post env0 (Some '' A@X.com'') state0 =
             (Inr (resend_sent_response (email user0) (send_mail_ok env0)), s')
         \<and> filter (\<lambda>w. ev_user_id w = uid) (email_verifications s') = [v]
         \<and> ev_token v = uuid4 env0 \<and> \<not> ev_is_verified v
         \<and> ev_expires_at v = Some (now env0 + timedelta_hours 24)
         \<and> v \<notin> set (email_verifications state0)
         \<and> filter (\<lambda>w. ev_user_id w \<noteq> uid) (email_verifications s') =
             filter (\<lambda>w. ev_user_id w \<noteq> uid) (email_verifications state0))
   \<and> ResendVerificationEmailView_post env0 (Some '' A@X.com'') state_consumed =
       (Inr resend_AlreadyVerifiedError, state_consumed)"
proof -
  have n1: "str_strip (str_lower '' A@X.com'') = ''a@x.com''" by code_simp
  have h2: "objects_get (\<lambda>u. email u = str_strip (str_lower '' A@X.com'')) User_DoesNotExist
              (users state0) = Inr user0"
    unfolding n1 by (simp add: objects_get_def state0_def user0_def)
  have h3: "uuid4 env0 \<notin> set (map ev_token (email_verifications state0))"
    by (simp add: state0_def env0_def ev0_def)
  have nv: "\<not> email_verified user0" by (simp add: user0_def)
  note a = resend_verification_existing_user[OF wf_state0 h2 h3, THEN conjunct2, rule_format, OF nv]
  have k2: "objects_get (\<lambda>u. email u = str_strip (str_lower '' A@X.com'')) User_DoesNotExist
              (users state_consumed) = Inr (user0\<lparr>email_verified := True, is_active := True\<rparr>)"
    unfolding n1 by (simp add: objects_get_def state_consumed_def state0_def user0_def)
  have k3: "uuid4 env0 \<notin> set (map ev_token (email_verifications state_consumed))"
    by (simp add: state_consumed_def state0_def env0_def ev0_def ev_consumed_def)
  have vf: "email_verified (user0\<lparr>email_verified := True, is_active := True\<rparr>)" by simp
  note b = resend_verification_existing_user[OF wf_state_consumed k2 k3, THEN conjunct1, rule_format, OF vf]
  show ?thesis using wf_state0 h2 h3 nv a b by (intro conjI)
qed

text \<open>
  C8. The response to a resend request for an unknown email is not the response for a
  stored, unverified user: the message differs and the latter also carries \<open>email\<close> and
  \<open>email_sent\<close>; for a stored, verified user the request fails with status 400. The
  response tells the caller whether the account exists.
\<close>

theorem resend_reveals_existence:
  "ResendVerificationEmailView_post env0 (Some ''nobody@x.com'') state0 =
     (Inr resend_not_found_response, state0)
   \<and> fst (ResendVerificationEmailView_post env0 (Some ''a@x.com'') state0) =
       Inr (resend_sent_response ''a@x.com'' True)
   \<and> resend_sent_response ''a@x.com'' True \<noteq> resend_not_found_response
   \<and> response_keys resend_not_found_response = [''success'', ''message'']
   \<and> response_keys (resend_sent_response ''a@x.com'' True) =
       [''success'', ''message'', ''email'', ''email_sent'']
   \<and> fst (ResendVerificationEmailView_post env0 (Some ''a@x.com'') state_consumed) =
       Inr resend_AlreadyVerifiedError
   \<and> \<not> response_success resend_AlreadyVerifiedError"
proof -
  have n1: "str_strip (str_lower ''a@x.com'') = ''a@x.com''" by code_simp
  have n2: "str_strip (str_lower ''nobody@x.com'') = ''nobody@x.com''" by code_simp
  have a: "ResendVerificationEmailView_post env0 (Some ''nobody@x.com'') state0 =
             (Inr resend_not_found_response, state0)"
    by (rule ResendVerificationEmailView_post_unknown)
       (simp_all add: n2 objects_get_def state0_def user0_def)
  have b: "fst (ResendVerificationEmailView_post env0 (Some ''a@x.com'') state0) =
             Inr (resend_sent_response ''a@x.com'' True)"
    by (simp add: ResendVerificationEmailView_post_def n1 objects_get_def state0_def user0_def
        ev0_def env0_def delete_verifications_of_def EmailVerification_objects_create_def
        EmailVerification_save_def EmailVerification_super_save_def send_verification_email_def
        resend_sent_response_def Let_def)
  have c: "fst (ResendVerificationEmailView_post env0 (Some ''a@x.com'') state_consumed) =
             Inr resend_AlreadyVerifiedError"
    by (simp add: ResendVerificationEmailView_post_def n1 objects_get_def state_consumed_def
        state0_def user0_def resend_AlreadyVerifiedError_def)
  show ?thesis
    using a b c
    by (simp add: resend_sent_response_def resend_not_found_response_def
        resend_AlreadyVerifiedError_def)
qed

section \<open>Lemmas on strings\<close>

text \<open>
  Lower-casing and stripping are idempotent, and \<open>normalize_email\<close> leaves an address
  that is already stripped and lower-cased as it is.
\<close>

lemma py_lower_char_idem: "py_lower_char (py_lower_char c) = py_lower_char c"
proof -
  define n :: nat where "n = of_char c"
  have unf: "\<And>x. py_lower_char x =
      (if (65 \<le> (of_char x :: nat) \<and> (of_char x :: nat) \<le> 90)
          \<or> (192 \<le> (of_char x :: nat) \<and> (of_char x :: nat) \<le> 222 \<and> (of_char x :: nat) \<noteq> 215)
       then char_of ((of_char x :: nat) + 32) else x)"
    by (simp add: py_lower_char_def Let_def)
  show ?thesis
  proof (cases "(65 \<le> n \<and> n \<le> 90) \<or> (192 \<le> n \<and> n \<le> 222 \<and> n \<noteq> 215)")
    case True
    define d :: char where "d = char_of (n + 32)"
    have 1: "py_lower_char c = d"
      unfolding unf[of c] n_def[symmetric] d_def by (simp only: True if_True)
    have "n + 32 < 256" using True by auto
    then have od: "(of_char d :: nat) = n + 32" by (simp add: d_def of_char_of)
    have nc: "\<not> ((65 \<le> n + 32 \<and> n + 32 \<le> 90)
                \<or> (192 \<le> n + 32 \<and> n + 32 \<le> 222 \<and> n + 32 \<noteq> 215))"
      using True by arith
    have "py_lower_char d = d" unfolding unf[of d] od by (simp only: nc if_False)
    then show ?thesis by (simp add: 1)
  next
    case False
    have "py_lower_char c = c" unfolding unf[of c] n_def[symmetric] by (simp only: False if_False)
    then show ?thesis by simp
  qed
qed

lemma str_lower_idem: "str_lower (str_lower s) = str_lower s"
  by (simp add: str_lower_def py_lower_char_idem)

lemma set_str_strip: "set (str_strip s) \<subseteq> set s"
proof -
  have "set (dropWhile py_isspace (rev (dropWhile py_isspace s))) \<subseteq> set (rev (dropWhile py_isspace s))"
    by (rule set_dropWhileD[THEN subsetI]) 
  also have "\<dots> \<subseteq> set s" using set_dropWhileD[of _ py_isspace s] by auto
  finally show ?thesis by (simp add: str_strip_def)
qed

lemma str_lower_fixed:
  assumes "\<forall>c\<in>set s. py_lower_char c = c"
  shows "str_lower s = s"
  using assms by (simp add: str_lower_def map_idI)

lemma str_lower_str_strip_str_lower:
  "str_lower (str_strip (str_lower s)) = str_strip (str_lower s)"
proof (rule str_lower_fixed, rule ballI)
  fix c assume "c \<in> set (str_strip (str_lower s))"
  then have "c \<in> set (str_lower s)" using set_str_strip by blast
  then obtain c0 where "c = py_lower_char c0" by (auto simp: str_lower_def)
  then show "py_lower_char c = c" by (simp add: py_lower_char_idem)
qed

lemma dropWhile_id: "xs = [] \<or> \<not> P (hd xs) \<Longrightarrow> dropWhile P xs = xs"
  by (cases xs) auto

lemma dropWhile_hd: "dropWhile P xs = [] \<or> \<not> P (hd (dropWhile P xs))"
  using hd_dropWhile[of P xs] by blast

lemma str_strip_ends:
  "str_strip s = [] \<or> (\<not> py_isspace (hd (str_strip s)) \<and> \<not> py_isspace (last (str_strip s)))"
proof (cases "str_strip s = []")
  case True
  then show ?thesis by simp
next
  case False
  define d where "d = dropWhile py_isspace s"
  define r where "r = dropWhile py_isspace (rev d)"
  have t: "str_strip s = rev r" by (simp add: str_strip_def r_def d_def)
  have rne: "r \<noteq> []" using False t by simp
  have dne: "d \<noteq> []"
  proof
    assume "d = []"
    then have "r = []" by (simp add: r_def)
    then show False using rne by simp
  qed
  have "\<not> py_isspace (hd r)" using rne hd_dropWhile unfolding r_def by blast
  then have l: "\<not> py_isspace (last (str_strip s))" using rne by (simp add: t last_rev)
  have hd_d: "\<not> py_isspace (hd d)" using dne hd_dropWhile unfolding d_def by blast
  have "rev d = takeWhile py_isspace (rev d) @ r" by (simp add: r_def)
  then have "last (rev d) = last (takeWhile py_isspace (rev d) @ r)" by simp
  also have "\<dots> = last r" using rne by simp
  finally have "last r = hd d" using dne by (simp add: last_rev)
  moreover have "hd (str_strip s) = last r" using rne by (simp add: t hd_rev)
  ultimately have "\<not> py_isspace (hd (str_strip s))" using hd_d by simp
  then show ?thesis using l by simp
qed

lemma str_strip_fixed:
  assumes "t = [] \<or> (\<not> py_isspace (hd t) \<and> \<not> py_isspace (last t))"
  shows "str_strip t = t"
proof (cases "t = []")
  case True
  then show ?thesis by (simp add: str_strip_def)
next
  case False
  then have h: "\<not> py_isspace (hd t)" and l: "\<not> py_isspace (last t)" using assms by simp_all
  have 1: "dropWhile py_isspace t = t" using h by (simp add: dropWhile_id)
  have "\<not> py_isspace (hd (rev t))" using l False by (simp add: hd_rev)
  then have 2: "dropWhile py_isspace (rev t) = rev t" by (simp add: dropWhile_id)
  show ?thesis by (simp add: str_strip_def 1 2)
qed

lemma str_strip_idem: "str_strip (str_strip s) = str_strip s"
  by (rule str_strip_fixed) (rule str_strip_ends)

lemma rsplit_at_rejoin:
  assumes "c \<in> set t"
  shows "take (length t - Suc (length (rev (takeWhile (\<lambda>x. x \<noteq> c) (rev t))))) t
           @ [c] @ rev (takeWhile (\<lambda>x. x \<noteq> c) (rev t)) = t"
proof -
  let ?tw = "takeWhile (\<lambda>x. x \<noteq> c) (rev t)"
  let ?dw = "dropWhile (\<lambda>x. x \<noteq> c) (rev t)"
  have "c \<in> set (rev t)" using assms by simp
  then have "?dw \<noteq> []" by (simp add: dropWhile_eq_Nil_conv)
  moreover have "\<not> (hd ?dw \<noteq> c)" using calculation hd_dropWhile by blast
  ultimately obtain rest where dw: "?dw = c # rest" by (cases ?dw) auto
  have "rev t = ?tw @ c # rest" using takeWhile_dropWhile_id[of "\<lambda>x. x \<noteq> c" "rev t"] dw by simp
  then have "rev (rev t) = rev (?tw @ c # rest)" by (rule arg_cong)
  then have t: "t = rev rest @ [c] @ rev ?tw" by simp
  have len: "length t - Suc (length (rev ?tw)) = length (rev rest)"
    by (subst t) simp
  have "take (length (rev rest)) t = rev rest" by (subst t) simp
  then have "take (length t - Suc (length (rev ?tw))) t = rev rest" using len by simp
  then have "take (length t - Suc (length (rev ?tw))) t @ [c] @ rev ?tw = rev rest @ [c] @ rev ?tw"
    by simp
  then show ?thesis using t by simp
qed

lemma normalize_email_fixed:
  assumes st: "str_strip v = v" and lo: "str_lower v = v"
  shows "normalize_email v = v"
proof (cases "CHR ''@'' \<in> set v")
  case False
  then show ?thesis by (simp add: normalize_email_def st)
next
  case True
  let ?dom = "rev (takeWhile (\<lambda>c. c \<noteq> CHR ''@'') (rev v))"
  have "map py_lower_char v = map (\<lambda>x. x) v" using lo by (simp add: str_lower_def)
  then have fx: "\<forall>c\<in>set v. py_lower_char c = c" unfolding map_eq_conv .
  have "set ?dom \<subseteq> set v" using set_takeWhileD[of _ "\<lambda>c. c \<noteq> CHR ''@''" "rev v"] by auto
  then have "str_lower ?dom = ?dom" using fx by (intro str_lower_fixed) blast
  then show ?thesis
    using True rsplit_at_rejoin[OF True] by (simp add: normalize_email_def st Let_def)
qed

lemma normalize_email_validated:
  "normalize_email (str_strip (str_lower x)) = str_strip (str_lower x)"
  by (rule normalize_email_fixed) (simp_all add: str_strip_idem str_lower_str_strip_str_lower)

section \<open>UserRegistrationView.post\<close>

lemma email_regex_nonempty: "\<not> re_match_anchored email_regex []"
  by (simp add: re_match_anchored_def email_regex_def Plus_def)

lemma then_hook_Inr:
  "then_hook hook r = Inr w \<Longrightarrow> \<exists>v. hook v = Inr w"
  by (auto simp: then_hook_def split: sum.splits)

lemma field_error_Nil:
  "field_error name r = [] \<Longrightarrow> \<exists>v. r = Inr v"
  by (cases r) (simp_all add: field_error_def)

lemma UserRegistrationSerializer_is_valid_email:
  assumes "UserRegistrationSerializer_is_valid e req s = Inr d"
  shows "\<exists>v. UserRegistrationSerializer_validate_email v s = Inr (reg_email d)"
proof -
  let ?r = "then_hook (\<lambda>v. UserRegistrationSerializer_validate_email v s)
              (CharField_run_validation False
                 (\<lambda>v. UniqueValidator_email s v @ MaxLengthValidator 254 v
                        @ ProhibitNullCharactersValidator v @ EmailValidator_errors e v)
                 (reg_email req))"
  from assms have a: "field_error ''email'' ?r = []" and b: "reg_email d = validated [] ?r"
    by (auto simp: UserRegistrationSerializer_is_valid_def Let_def split: if_splits)
  from field_error_Nil[OF a] obtain w where w: "?r = Inr w" by blast
  have "reg_email d = w" unfolding b w by (simp add: validated_def)
  then show ?thesis using then_hook_Inr[OF w] by simp
qed

lemma UserRegistrationSerializer_is_valid_Inr:
  assumes valid: "UserRegistrationSerializer_is_valid e req s = Inr d"
  shows "reg_email d \<noteq> []
       \<and> reg_email d \<notin> set (map email (users s))
       \<and> normalize_email (reg_email d) = reg_email d"
proof -
  obtain v where v: "UserRegistrationSerializer_validate_email v s = Inr (reg_email d)"
    using UserRegistrationSerializer_is_valid_email[OF valid] by blast
  then have f: "reg_email d = str_strip (str_lower v)"
      "\<not> email_exists (reg_email d) s"
      "re_match_anchored email_regex (reg_email d)"
    by (auto simp: UserRegistrationSerializer_validate_email_def Let_def split: if_splits)
  have ne: "reg_email d \<noteq> []" using f(3) email_regex_nonempty by auto
  have nex: "reg_email d \<notin> set (map email (users s))"
    using f(2) by (auto simp: email_exists_def filter_empty_conv)
  have norm: "normalize_email (reg_email d) = reg_email d"
    unfolding f(1) by (rule normalize_email_validated)
  show ?thesis using ne nex norm by simp
qed

lemma UserRegistrationSerializer_create_valid:
  assumes valid: "UserRegistrationSerializer_is_valid e req s = Inr d"
  shows "UserRegistrationSerializer_create e d s =
           (Inr \<lparr>user_id = Some (next_user_id s), email = reg_email d,
             password = make_password e (reg_password d),
             first_name = reg_first_name d, last_name = reg_last_name d,
             phone_number = (case reg_phone_number d of None \<Rightarrow> [] | Some p \<Rightarrow> p),
             user_type = (case reg_user_type d of None \<Rightarrow> pet_owner | Some t \<Rightarrow> t),
             email_verified = False, is_active = False, is_staff = False,
             date_joined = now e, last_login = None\<rparr>,
            s\<lparr>users := users s @ [\<lparr>user_id = Some (next_user_id s), email = reg_email d,
             password = make_password e (reg_password d),
             first_name = reg_first_name d, last_name = reg_last_name d,
             phone_number = (case reg_phone_number d of None \<Rightarrow> [] | Some p \<Rightarrow> p),
             user_type = (case reg_user_type d of None \<Rightarrow> pet_owner | Some t \<Rightarrow> t),
             email_verified = False, is_active = False, is_staff = False,
             date_joined = now e, last_login = None\<rparr>],
              next_user_id := Suc (next_user_id s)\<rparr>)"
  using UserRegistrationSerializer_is_valid_Inr[OF valid]
  by (simp add: UserRegistrationSerializer_create_def UserManager_create_user_def
      User_save_def Let_def)

lemma UserRegistrationView_post_valid:
  assumes valid: "UserRegistrationSerializer_is_valid e req s = Inr d"
    and fresh: "uuid4 e \<notin> set (map ev_token (email_verifications s))"
  shows "UserRegistrationView_post e req s =
           (Inr (registration_success (reg_email d) (send_mail_ok e)),
            s\<lparr>users := users s @ [\<lparr>user_id = Some (next_user_id s), email = reg_email d,
             password = make_password e (reg_password d),
             first_name = reg_first_name d, last_name = reg_last_name d,
             phone_number = (case reg_phone_number d of None \<Rightarrow> [] | Some p \<Rightarrow> p),
             user_type = (case reg_user_type d of None \<Rightarrow> pet_owner | Some t \<Rightarrow> t),
             email_verified = False, is_active = False, is_staff = False,
             date_joined = now e, last_login = None\<rparr>],
              next_user_id := Suc (next_user_id s),
              email_verifications := email_verifications s @ [\<lparr>ev_id = Some (next_ev_id s), ev_user_id = next_user_id s, ev_token = uuid4 e,
             ev_created_at = Some (now (tick (tick e))), ev_is_verified = False,
             ev_expires_at = Some (now (tick e) + timedelta_hours 24)\<rparr>],
              next_ev_id := Suc (next_ev_id s),
              outbox := (if send_mail_ok e
                         then outbox s @ [VerificationEmail (reg_email d) (uuid4 e)]
                         else outbox s)\<rparr>)"
  using fresh
  by (simp add: UserRegistrationView_post_def valid UserRegistrationSerializer_create_valid[OF valid]
      EmailVerification_objects_create_def EmailVerification_save_def
      EmailVerification_super_save_def send_verification_email_def registration_success_def
      Let_def)

lemma registration_request0_valid:
  "UserRegistrationSerializer_is_valid env0 registration_request0 state0 =
     Inr \<lparr>reg_email = ''bob@y.org'', reg_password = ''S3cretpass'',
            reg_confirm_password = ''S3cretpass'', reg_first_name = ''Bob'',
            reg_last_name = ''Ray'', reg_phone_number = Some ''+1 (555) 123-4567'',
            reg_user_type = None\<rparr>"
  by code_simp

lemma wf_no_token_of_new_user:
  assumes wf: "wf_state s"
  shows "filter (\<lambda>w. ev_user_id w = next_user_id s) (email_verifications s) = []"
proof -
  have "\<And>w. w \<in> set (email_verifications s) \<Longrightarrow> ev_user_id w \<noteq> next_user_id s"
  proof
    fix w assume w: "w \<in> set (email_verifications s)" and eq: "ev_user_id w = next_user_id s"
    have "Some (ev_user_id w) \<in> set (map user_id (users s))"
      using wf w by (auto simp: wf_state_def wf_email_verifications_def list_all_iff)
    then obtain u where u: "u \<in> set (users s)" "user_id u = Some (ev_user_id w)" by auto
    from wf_user_pk[OF wf u(1)] u(2) have "ev_user_id w < next_user_id s" by auto
    then show False using eq by simp
  qed
  then show ?thesis by (simp add: filter_empty_conv)
qed

text \<open>
  C5, amended: a registration request that passes validation, on a store that satisfies
  the schema's constraints and with a fresh UUID drawn: the view answers 201, the user it
  adds has \<open>is_active\<close> and \<open>email_verified\<close> false, and afterwards exactly one
  verification token of that user is stored, unconsumed. Its \<open>expires_at\<close> is the clock
  reading that \<open>save()\<close> took plus 24 hours; its \<open>created_at\<close> is the reading after that
  one, which \<open>auto_now_add\<close> takes while the row is inserted. So \<open>expires_at\<close> is
  \<open>created_at\<close> plus 24 hours exactly when the two readings coincide. The token is
  expired at a reading exactly when that reading is later than \<open>expires_at\<close>.
\<close>

theorem registration_creates_inactive_user_with_one_token:
  assumes wf: "wf_state s"
    and valid: "UserRegistrationSerializer_is_valid e req s = Inr d"
    and fresh: "uuid4 e \<notin> set (map ev_token (email_verifications s))"
  shows "\<exists>u v s'.
           UserRegistrationView_post e req s =
             (Inr (registration_success (email u) (send_mail_ok e)), s')
         \<and> users s' = users s @ [u]
         \<and> user_id u = Some (next_user_id s)
         \<and> email u = reg_email d
         \<and> \<not> is_active u \<and> \<not> email_verified u
         \<and> filter (\<lambda>w. ev_user_id w = next_user_id s) (email_verifications s') = [v]
         \<and> ev_token v = uuid4 e \<and> \<not> ev_is_verified v
         \<and> ev_expires_at v = Some (now (tick e) + timedelta_hours 24)
         \<and> ev_created_at v = Some (now (tick (tick e)))
         \<and> (ev_expires_at v = map_option (\<lambda>t. t + timedelta_hours 24) (ev_created_at v))
             = (now (tick e) = now (tick (tick e)))
         \<and> EmailVerification_is_expired e' v =
             Inr (now (tick e) + timedelta_hours 24 < now e')"
proof -
  let ?u = "\<lparr>user_id = Some (next_user_id s), email = reg_email d,
             password = make_password e (reg_password d),
             first_name = reg_first_name d, last_name = reg_last_name d,
             phone_number = (case reg_phone_number d of None \<Rightarrow> [] | Some p \<Rightarrow> p),
             user_type = (case reg_user_type d of None \<Rightarrow> pet_owner | Some t \<Rightarrow> t),
             email_verified = False, is_active = False, is_staff = False,
             date_joined = now e, last_login = None\<rparr>"
  let ?v = "\<lparr>ev_id = Some (next_ev_id s), ev_user_id = next_user_id s, ev_token = uuid4 e,
             ev_created_at = Some (now (tick (tick e))), ev_is_verified = False,
             ev_expires_at = Some (now (tick e) + timedelta_hours 24)\<rparr>"
  let ?s3 = "s\<lparr>users := users s @ [?u],
              next_user_id := Suc (next_user_id s),
              email_verifications := email_verifications s @ [?v],
              next_ev_id := Suc (next_ev_id s),
              outbox := (if send_mail_ok e
                         then outbox s @ [VerificationEmail (reg_email d) (uuid4 e)]
                         else outbox s)\<rparr>"
  have post: "UserRegistrationView_post e req s =
                (Inr (registration_success (email ?u) (send_mail_ok e)), ?s3)"
    using UserRegistrationView_post_valid[OF valid fresh] by simp
  have one: "filter (\<lambda>w. ev_user_id w = next_user_id s) (email_verifications ?s3) = [?v]"
    using wf_no_token_of_new_user[OF wf] by simp
  have ex: "EmailVerification_is_expired e' ?v =
              Inr (now (tick e) + timedelta_hours 24 < now e')"
    by (simp add: EmailVerification_is_expired_def)
  show ?thesis
    apply (rule exI[of _ ?u], rule exI[of _ ?v], rule exI[of _ ?s3])
    apply (intro conjI)
                 apply (rule post)
    using one ex by simp_all
qed

text \<open>
  C5, as stated: \<open>expires_at\<close> equals \<open>created_at\<close> plus 24 hours. It fails when the clock
  moves between the reading of \<open>save()\<close> and the reading of \<open>auto_now_add\<close>: with readings
  1000, 1001, 1002 microseconds the user joins at 1000, the token expires at 1001 plus
  24 hours and is created at 1002.
\<close>

theorem registration_token_expiry_not_created_at_plus_24h:
  "UserRegistrationSerializer_is_valid env0 registration_request0 state0 =
     Inr \<lparr>reg_email = ''bob@y.org'', reg_password = ''S3cretpass'',
            reg_confirm_password = ''S3cretpass'', reg_first_name = ''Bob'',
            reg_last_name = ''Ray'', reg_phone_number = Some ''+1 (555) 123-4567'',
            reg_user_type = None\<rparr>
   \<and> fst (UserRegistrationView_post env0 registration_request0 state0) =
       Inr (registration_success ''bob@y.org'' True)
   \<and> filter (\<lambda>w. ev_user_id w = 2)
        (email_verifications (snd (UserRegistrationView_post env0 registration_request0 state0))) =
       [\<lparr>ev_id = Some 2, ev_user_id = 2, ev_token = 7, ev_created_at = Some 1002,
         ev_is_verified = False, ev_expires_at = Some (1001 + timedelta_hours 24)\<rparr>]
   \<and> (1001 + timedelta_hours 24 \<noteq> 1002 + timedelta_hours 24)"
proof -
  have h3: "uuid4 env0 \<notin> set (map ev_token (email_verifications state0))"
    by (simp add: state0_def env0_def ev0_def)
  note p = UserRegistrationView_post_valid[OF registration_request0_valid h3]
  show ?thesis
    unfolding p using registration_request0_valid
    by (simp add: env0_def state0_def ev0_def)
qed

theorem registration_creates_inactive_user_with_one_token_witness:
  "wf_state state0
   \<and> UserRegistrationSerializer_is_valid env0 registration_request0 state0 =
       Inr \<lparr>reg_email = ''bob@y.org'', reg_password = ''S3cretpass'',
            reg_confirm_password = ''S3cretpass'', reg_first_name = ''Bob'',
            reg_last_name = ''Ray'', reg_phone_number = Some ''+1 (555) 123-4567'',
            reg_user_type = None\<rparr>
   \<and> uuid4 env0 \<notin> set (map ev_token (email_verifications state0))
   \<and> (\<exists>u v s'.
         UserRegistrationView_post env0 registration_request0 state0 =
           (Inr (registration_success (email u) (send_mail_ok env0)), s')
       \<and> users s' = users state0 @ [u]
       \<and> user_id u = Some (next_user_id state0)
       \<and> email u = ''bob@y.org''
       \<and> \<not> is_active u \<and> \<not> email_verified u
       \<and> filter (\<lambda>w. ev_user_id w = next_user_id state0) (email_verifications s') = [v]
       \<and> ev_token v = uuid4 env0 \<and> \<not> ev_is_verified v
       \<and> ev_expires_at v = Some (now (tick env0) + timedelta_hours 24)
       \<and> ev_created_at v = Some (now (tick (tick env0)))
       \<and> (ev_expires_at v = map_option (\<lambda>t. t + timedelta_hours 24) (ev_created_at v))
           = (now (tick env0) = now (tick (tick env0)))
       \<and> EmailVerification_is_expired env_late v =
           Inr (now (tick env0) + timedelta_hours 24 < now env_late))"
proof -
  have h3: "uuid4 env0 \<notin> set (map ev_token (email_verifications state0))"
    by (simp add: state0_def env0_def ev0_def)
  note c = registration_creates_inactive_user_with_one_token[OF wf_state0
             registration_request0_valid h3, of env_late]
  have c': "\<exists>u v s'.
         UserRegistrationView_post env0 registration_request0 state0 =
           (Inr (registration_success (email u) (send_mail_ok env0)), s')
       \<and> users s' = users state0 @ [u]
       \<and> user_id u = Some (next_user_id state0)
       \<and> email u = ''bob@y.org''
       \<and> \<not> is_active u \<and> \<not> email_verified u
       \<and> filter (\<lambda>w. ev_user_id w = next_user_id state0) (email_verifications s') = [v]
       \<and> ev_token v = uuid4 env0 \<and> \<not> ev_is_verified v
       \<and> ev_expires_at v = Some (now (tick env0) + timedelta_hours 24)
       \<and> ev_created_at v = Some (now (tick (tick env0)))
       \<and> (ev_expires_at v = map_option (\<lambda>t. t + timedelta_hours 24) (ev_created_at v))
           = (now (tick env0) = now (tick (tick env0)))
       \<and> EmailVerification_is_expired env_late v =
           Inr (now (tick env0) + timedelta_hours 24 < now env_late)"
    using c by simp
  show ?thesis using wf_state0 registration_request0_valid h3 c' by (intro conjI)
qed

section \<open>The integrity constraints are invariant\<close>

text \<open>
  The empty store satisfies the constraints (\<open>wf_empty_state\<close>), and every view leaves a
  store that satisfies them in one that does, whatever it answers: the theorems that
  assume \<open>wf_state\<close> speak of every store the views can reach.
\<close>

lemma map_replace_same_key:
  assumes "f x' = f x"
  shows "map f (map (\<lambda>r. if r = x then x' else r) rows) = map f rows"
  using assms by (induction rows) auto

lemma list_all_map_replace:
  assumes "list_all P rows" and "P x'"
  shows "list_all P (map (\<lambda>r. if r = x then x' else r) rows)"
  using assms by (induction rows) auto

lemma wf_state_outbox: "wf_state (s\<lparr>outbox := ob\<rparr>) = wf_state s"
  by (simp add: wf_state_def wf_users_def wf_email_verifications_def wf_password_resets_def)

lemma pk_below_Suc: "pk_below n k \<Longrightarrow> pk_below (Suc n) k"
  by (cases k) auto

lemma list_all_bound_mono:
  assumes "list_all (\<lambda>u. pk_below n (f u)) rows"
  shows "list_all (\<lambda>u. pk_below (Suc n) (f u)) rows"
  using assms by (induction rows) (auto simp: pk_below_Suc)

lemma bound_not_mem:
  assumes "list_all (\<lambda>u. pk_below n (f u)) rows"
  shows "Some n \<notin> set (map f rows)"
proof
  assume "Some n \<in> set (map f rows)"
  then obtain u where "u \<in> set rows" "f u = Some n" by auto
  then have "pk_below n (Some n)" using assms by (auto simp: list_all_iff)
  then show False by simp
qed

lemma wf_insert_user:
  assumes wf: "wf_state s"
    and em: "email u \<noteq> []" "email u \<notin> set (map email (users s))"
    and pk: "user_id u = Some (next_user_id s)"
  shows "wf_state (s\<lparr>users := users s @ [u], next_user_id := Suc (next_user_id s)\<rparr>)"
proof -
  have b: "list_all (\<lambda>u. pk_below (next_user_id s) (user_id u)) (users s)"
    using wf by (simp add: wf_state_def wf_users_def)
  have nm: "Some (next_user_id s) \<notin> set (map user_id (users s))" by (rule bound_not_mem[OF b])
  have wu: "wf_users (s\<lparr>users := users s @ [u], next_user_id := Suc (next_user_id s)\<rparr>)"
    using wf em pk nm list_all_bound_mono[OF b]
    by (simp add: wf_state_def wf_users_def)
  have we: "wf_email_verifications (s\<lparr>users := users s @ [u], next_user_id := Suc (next_user_id s)\<rparr>)"
    using wf by (auto simp: wf_state_def wf_email_verifications_def list_all_iff)
  have wp: "wf_password_resets (s\<lparr>users := users s @ [u], next_user_id := Suc (next_user_id s)\<rparr>)"
    using wf by (auto simp: wf_state_def wf_password_resets_def list_all_iff)
  show ?thesis using wu we wp by (simp add: wf_state_def)
qed

lemma wf_replace_user:
  assumes wf: "wf_state s"
    and uin: "u \<in> set (users s)"
    and same: "user_id u' = user_id u" "email u' = email u"
  shows "wf_state (s\<lparr>users := map (\<lambda>r. if r = u then u' else r) (users s)\<rparr>)"
proof -
  let ?us = "map (\<lambda>r. if r = u then u' else r) (users s)"
  have ids: "map user_id ?us = map user_id (users s)" by (rule map_replace_same_key[where f = user_id, OF same(1)])
  have ems: "map email ?us = map email (users s)" by (rule map_replace_same_key[where f = email, OF same(2)])
  have pu: "pk_below (next_user_id s) (user_id u')" "email u' \<noteq> []"
    using wf uin same by (auto simp: wf_state_def wf_users_def list_all_iff)
  have wu: "wf_users (s\<lparr>users := ?us\<rparr>)"
    using wf pu
    by (simp add: wf_state_def wf_users_def ids ems list_all_map_replace del: map_map)
  have we: "wf_email_verifications (s\<lparr>users := ?us\<rparr>)"
    using wf by (simp add: wf_state_def wf_email_verifications_def ids del: map_map)
  have wp: "wf_password_resets (s\<lparr>users := ?us\<rparr>)"
    using wf by (simp add: wf_state_def wf_password_resets_def ids del: map_map)
  show ?thesis using wu we wp by (simp add: wf_state_def)
qed

lemma wf_insert_email_verification:
  assumes wf: "wf_state s"
    and v: "ev_id v = Some (next_ev_id s)" "ev_token v \<notin> set (map ev_token (email_verifications s))"
           "ev_expires_at v \<noteq> None" "Some (ev_user_id v) \<in> set (map user_id (users s))"
  shows "wf_state (s\<lparr>email_verifications := email_verifications s @ [v],
                     next_ev_id := Suc (next_ev_id s)\<rparr>)"
proof -
  have b: "list_all (\<lambda>v. pk_below (next_ev_id s) (ev_id v)) (email_verifications s)"
    using wf by (simp add: wf_state_def wf_email_verifications_def)
  have nm: "Some (next_ev_id s) \<notin> set (map ev_id (email_verifications s))"
    by (rule bound_not_mem[OF b])
  have we: "wf_email_verifications (s\<lparr>email_verifications := email_verifications s @ [v],
                     next_ev_id := Suc (next_ev_id s)\<rparr>)"
    using wf v nm list_all_bound_mono[OF b]
    by (simp add: wf_state_def wf_email_verifications_def)
  show ?thesis
    using wf we by (simp add: wf_state_def wf_users_def wf_password_resets_def)
qed

lemma wf_insert_password_reset:
  assumes wf: "wf_state s"
    and v: "pr_id v = Some (next_pr_id s)" "pr_token v \<notin> set (map pr_token (password_resets s))"
           "pr_expires_at v \<noteq> None" "Some (pr_user_id v) \<in> set (map user_id (users s))"
  shows "wf_state (s\<lparr>password_resets := password_resets s @ [v],
                     next_pr_id := Suc (next_pr_id s)\<rparr>)"
proof -
  have b: "list_all (\<lambda>v. pk_below (next_pr_id s) (pr_id v)) (password_resets s)"
    using wf by (simp add: wf_state_def wf_password_resets_def)
  have nm: "Some (next_pr_id s) \<notin> set (map pr_id (password_resets s))"
    by (rule bound_not_mem[OF b])
  have we: "wf_password_resets (s\<lparr>password_resets := password_resets s @ [v],
                     next_pr_id := Suc (next_pr_id s)\<rparr>)"
    using wf v nm list_all_bound_mono[OF b]
    by (simp add: wf_state_def wf_password_resets_def)
  show ?thesis
    using wf we by (simp add: wf_state_def wf_users_def wf_email_verifications_def)
qed

lemma wf_replace_email_verification:
  assumes wf: "wf_state s"
    and vin: "v \<in> set (email_verifications s)"
    and same: "ev_id v' = ev_id v" "ev_token v' = ev_token v" "ev_user_id v' = ev_user_id v"
              "ev_expires_at v' = ev_expires_at v"
  shows "wf_state (s\<lparr>email_verifications := map (\<lambda>r. if r = v then v' else r) (email_verifications s)\<rparr>)"
proof -
  let ?vs = "map (\<lambda>r. if r = v then v' else r) (email_verifications s)"
  have ids: "map ev_id ?vs = map ev_id (email_verifications s)" by (rule map_replace_same_key[where f = ev_id, OF same(1)])
  have toks: "map ev_token ?vs = map ev_token (email_verifications s)" by (rule map_replace_same_key[where f = ev_token, OF same(2)])
  have pv: "pk_below (next_ev_id s) (ev_id v')" "ev_expires_at v' \<noteq> None"
           "Some (ev_user_id v') \<in> set (map user_id (users s))"
    using wf vin same by (auto simp: wf_state_def wf_email_verifications_def list_all_iff)
  have we: "wf_email_verifications (s\<lparr>email_verifications := ?vs\<rparr>)"
    using wf pv
    by (simp add: wf_state_def wf_email_verifications_def ids toks list_all_map_replace del: map_map)
  show ?thesis
    using wf we by (simp add: wf_state_def wf_users_def wf_password_resets_def)
qed

lemma wf_replace_password_reset:
  assumes wf: "wf_state s"
    and vin: "v \<in> set (password_resets s)"
    and same: "pr_id v' = pr_id v" "pr_token v' = pr_token v" "pr_user_id v' = pr_user_id v"
              "pr_expires_at v' = pr_expires_at v"
  shows "wf_state (s\<lparr>password_resets := map (\<lambda>r. if r = v then v' else r) (password_resets s)\<rparr>)"
proof -
  let ?vs = "map (\<lambda>r. if r = v then v' else r) (password_resets s)"
  have ids: "map pr_id ?vs = map pr_id (password_resets s)" by (rule map_replace_same_key[where f = pr_id, OF same(1)])
  have toks: "map pr_token ?vs = map pr_token (password_resets s)" by (rule map_replace_same_key[where f = pr_token, OF same(2)])
  have pv: "pk_below (next_pr_id s) (pr_id v')" "pr_expires_at v' \<noteq> None"
           "Some (pr_user_id v') \<in> set (map user_id (users s))"
    using wf vin same by (auto simp: wf_state_def wf_password_resets_def list_all_iff)
  have we: "wf_password_resets (s\<lparr>password_resets := ?vs\<rparr>)"
    using wf pv
    by (simp add: wf_state_def wf_password_resets_def ids toks list_all_map_replace del: map_map)
  show ?thesis
    using wf we by (simp add: wf_state_def wf_users_def wf_email_verifications_def)
qed

lemma wf_delete_verifications_of:
  assumes wf: "wf_state s"
  shows "wf_state (delete_verifications_of u s)"
proof -
  have "wf_email_verifications (delete_verifications_of u s)"
    using wf
    by (auto simp: wf_state_def wf_email_verifications_def delete_verifications_of_def
        distinct_map_filter list_all_iff)
  then show ?thesis
    using wf by (simp add: wf_state_def wf_users_def wf_password_resets_def
        delete_verifications_of_def)
qed

lemma wf_update_last_login:
  assumes wf: "wf_state s"
  shows "wf_state (update_last_login u s)"
proof -
  let ?us = "map (\<lambda>r. if user_id r = user_id u then r\<lparr>last_login := last_login u\<rparr> else r) (users s)"
  have ids: "map user_id ?us = map user_id (users s)" by (induction "users s") (auto simp: comp_def)
  have ems: "map email ?us = map email (users s)" by (auto simp: comp_def)
  have "list_all (\<lambda>u. pk_below (next_user_id s) (user_id u)) ?us"
       "list_all (\<lambda>u. email u \<noteq> []) ?us"
    using wf by (auto simp: wf_state_def wf_users_def list_all_iff)
  then have wu: "wf_users (update_last_login u s)"
    using wf by (simp add: wf_state_def wf_users_def update_last_login_def ids ems del: map_map)
  show ?thesis
    using wf wu
    by (simp add: wf_state_def wf_email_verifications_def wf_password_resets_def
        update_last_login_def ids del: map_map)
qed


lemma wf_send_verification_email:
  "wf_state (snd (send_verification_email e u t s)) = wf_state s"
  by (simp add: send_verification_email_def wf_state_outbox)

lemma wf_send_welcome_email: "wf_state (snd (send_welcome_email e u s)) = wf_state s"
  by (simp add: send_welcome_email_def wf_state_outbox)

lemma wf_send_password_reset_email:
  "wf_state (snd (send_password_reset_email e u t s)) = wf_state s"
  by (simp add: send_password_reset_email_def wf_state_outbox)

lemma wf_send_password_changed_email:
  "wf_state (snd (send_password_changed_email e u s)) = wf_state s"
  by (simp add: send_password_changed_email_def wf_state_outbox)

lemma wf_send_verification_emailD:
  "send_verification_email e u t s = (b, s') \<Longrightarrow> wf_state s \<Longrightarrow> wf_state s'"
  using wf_send_verification_email[of e u t s] by simp

lemma wf_send_password_reset_emailD:
  "send_password_reset_email e u t s = (b, s') \<Longrightarrow> wf_state s \<Longrightarrow> wf_state s'"
  using wf_send_password_reset_email[of e u t s] by simp

lemma User_save_stored:
  assumes wf: "wf_state s" and uin: "u \<in> set (users s)"
    and same: "user_id u' = user_id u" "email u' = email u"
  shows "\<exists>s1. User_save u' s = (Inr u', s1) \<and> wf_state s1
              \<and> email_verifications s1 = email_verifications s
              \<and> password_resets s1 = password_resets s"
proof -
  obtain i where pk: "user_id u = Some i" using wf_user_pk[OF wf uin] by blast
  have d: "distinct (map user_id (users s))" using wf by (simp add: wf_state_def wf_users_def)
  have "User_save u' s = (Inr u', s\<lparr>users := map (\<lambda>r. if r = u then u' else r) (users s)\<rparr>)"
    using pk same update_or_insert_present[OF d uin same(1)] by (simp add: User_save_def)
  then show ?thesis using wf_replace_user[OF wf uin same] by simp
qed

lemma EmailVerification_save_stored:
  assumes wf: "wf_state s" and vin: "v \<in> set (email_verifications s)"
    and same: "ev_id v' = ev_id v" "ev_token v' = ev_token v" "ev_user_id v' = ev_user_id v"
              "ev_expires_at v' = ev_expires_at v"
  shows "\<exists>s1. EmailVerification_save e v' s = (Inr v', s1) \<and> wf_state s1"
proof -
  have "pk_below (next_ev_id s) (ev_id v)" "ev_expires_at v \<noteq> None"
    using wf vin by (auto simp: wf_state_def wf_email_verifications_def list_all_iff)
  then obtain i where pk: "ev_id v = Some i" and ex: "ev_expires_at v' \<noteq> None"
    using pk_belowD same by metis
  have d: "distinct (map ev_id (email_verifications s))"
    using wf by (simp add: wf_state_def wf_email_verifications_def)
  have "EmailVerification_save e v' s =
          (Inr v', s\<lparr>email_verifications := map (\<lambda>r. if r = v then v' else r) (email_verifications s)\<rparr>)"
    using pk ex same update_or_insert_present[OF d vin same(1)]
    by (auto simp: EmailVerification_save_def EmailVerification_super_save_def)
  then show ?thesis using wf_replace_email_verification[OF wf vin same] by simp
qed

lemma PasswordReset_save_stored:
  assumes wf: "wf_state s" and vin: "v \<in> set (password_resets s)"
    and same: "pr_id v' = pr_id v" "pr_token v' = pr_token v" "pr_user_id v' = pr_user_id v"
              "pr_expires_at v' = pr_expires_at v"
  shows "\<exists>s1. PasswordReset_save e v' s = (Inr v', s1) \<and> wf_state s1"
proof -
  have "pk_below (next_pr_id s) (pr_id v)" "pr_expires_at v \<noteq> None"
    using wf vin by (auto simp: wf_state_def wf_password_resets_def list_all_iff)
  then obtain i where pk: "pr_id v = Some i" and ex: "pr_expires_at v' \<noteq> None"
    using pk_belowD same by metis
  have d: "distinct (map pr_id (password_resets s))"
    using wf by (simp add: wf_state_def wf_password_resets_def)
  have "PasswordReset_save e v' s =
          (Inr v', s\<lparr>password_resets := map (\<lambda>r. if r = v then v' else r) (password_resets s)\<rparr>)"
    using pk ex same update_or_insert_present[OF d vin same(1)]
    by (auto simp: PasswordReset_save_def PasswordReset_super_save_def)
  then show ?thesis using wf_replace_password_reset[OF wf vin same] by simp
qed

lemma wf_EmailVerification_objects_create:
  assumes wf: "wf_state s" and uin: "u \<in> set (users s)"
  shows "wf_state (snd (EmailVerification_objects_create e u s))"
proof -
  obtain uid where pk: "user_id u = Some uid" using wf_user_pk[OF wf uin] by blast
  have fk: "Some uid \<in> set (map user_id (users s))" using uin pk by force
  show ?thesis
  proof (cases "uuid4 e \<in> set (map ev_token (email_verifications s))")
    case True
    then show ?thesis
      using wf pk
      by (simp add: EmailVerification_objects_create_def EmailVerification_save_def
          EmailVerification_super_save_def)
  next
    case False
    let ?v = "\<lparr>ev_id = Some (next_ev_id s), ev_user_id = uid, ev_token = uuid4 e,
               ev_created_at = Some (now (tick e)), ev_is_verified = False,
               ev_expires_at = Some (now e + timedelta_hours 24)\<rparr>"
    have "wf_state (s\<lparr>email_verifications := email_verifications s @ [?v],
                       next_ev_id := Suc (next_ev_id s)\<rparr>)"
      using False fk by (intro wf_insert_email_verification[OF wf]) simp_all
    then show ?thesis
      using False pk
      by (simp add: EmailVerification_objects_create_def EmailVerification_save_def
          EmailVerification_super_save_def Let_def)
  qed
qed

lemma wf_PasswordReset_objects_create:
  assumes wf: "wf_state s" and uin: "u \<in> set (users s)"
  shows "wf_state (snd (PasswordReset_objects_create e u s))"
proof -
  obtain uid where pk: "user_id u = Some uid" using wf_user_pk[OF wf uin] by blast
  have fk: "Some uid \<in> set (map user_id (users s))" using uin pk by force
  show ?thesis
  proof (cases "uuid4 e \<in> set (map pr_token (password_resets s))")
    case True
    then show ?thesis
      using wf pk
      by (simp add: PasswordReset_objects_create_def PasswordReset_save_def
          PasswordReset_super_save_def)
  next
    case False
    let ?v = "\<lparr>pr_id = Some (next_pr_id s), pr_user_id = uid, pr_token = uuid4 e,
               pr_created_at = Some (now (tick e)), pr_is_used = False,
               pr_expires_at = Some (now e + timedelta_hours 1)\<rparr>"
    have "wf_state (s\<lparr>password_resets := password_resets s @ [?v],
                       next_pr_id := Suc (next_pr_id s)\<rparr>)"
      using False fk by (intro wf_insert_password_reset[OF wf]) simp_all
    then show ?thesis
      using False pk
      by (simp add: PasswordReset_objects_create_def PasswordReset_save_def
          PasswordReset_super_save_def Let_def)
  qed
qed


lemma wf_email_verification_expires:
  "wf_state s \<Longrightarrow> v \<in> set (email_verifications s) \<Longrightarrow> \<exists>t. ev_expires_at v = Some t"
  by (auto simp: wf_state_def wf_email_verifications_def list_all_iff)

lemma wf_password_reset_expires:
  "wf_state s \<Longrightarrow> r \<in> set (password_resets s) \<Longrightarrow> \<exists>t. pr_expires_at r = Some t"
  by (auto simp: wf_state_def wf_password_resets_def list_all_iff)

lemma wf_related_user_of_reset:
  assumes wf: "wf_state s" and r: "r \<in> set (password_resets s)"
  shows "\<exists>u. related_user (pr_user_id r) s = Inr u"
proof -
  have fk: "Some (pr_user_id r) \<in> set (map user_id (users s))"
    using wf r by (auto simp: wf_state_def wf_password_resets_def list_all_iff)
  then obtain u where u: "u \<in> set (users s)" "user_id u = Some (pr_user_id r)" by auto
  have "distinct (map user_id (users s))" using wf by (simp add: wf_state_def wf_users_def)
  from objects_get_unique[OF this u(1) u(2)] show ?thesis by (auto simp: related_user_def)
qed

lemma wf_EmailVerificationView_get:
  assumes wf: "wf_state s"
  shows "wf_state (snd (EmailVerificationView_get e token s))"
proof (cases "objects_get (\<lambda>v. ev_token v = token) EmailVerification_DoesNotExist
                (email_verifications s)")
  case (Inl x)
  then show ?thesis using wf by (simp add: EmailVerificationView_get_def)
next
  case (Inr v)
  have vin: "v \<in> set (email_verifications s)" using objects_get_Inr_mem[OF Inr] by simp
  obtain t where ex: "ev_expires_at v = Some t" using wf_email_verification_expires[OF wf vin] by blast
  show ?thesis
  proof (cases "ev_is_verified v \<or> now e > t")
    case True
    then show ?thesis
      using wf Inr ex
      by (auto simp: EmailVerificationView_get_def EmailVerification_is_expired_def)
  next
    case False
    then have nv: "\<not> ev_is_verified v" and le: "now e \<le> t" by auto
    obtain u where ru: "related_user (ev_user_id v) s = Inr u"
      using wf_related_user[OF wf vin] by blast
    have uin: "u \<in> set (users s)" using related_user_id[OF ru] by simp
    let ?u' = "u\<lparr>email_verified := True, is_active := True\<rparr>"
    let ?v' = "v\<lparr>ev_is_verified := True\<rparr>"
    obtain s1 where s1: "User_save ?u' s = (Inr ?u', s1)" "wf_state s1"
        "email_verifications s1 = email_verifications s"
      using User_save_stored[OF wf uin, of ?u'] by auto
    have vin1: "v \<in> set (email_verifications s1)" using vin s1(3) by simp
    obtain s2 where s2: "EmailVerification_save (tick e) ?v' s1 = (Inr ?v', s2)" "wf_state s2"
      using EmailVerification_save_stored[OF s1(2) vin1, of ?v' "tick e"] by auto
    have "snd (EmailVerificationView_get e token s) = snd (send_welcome_email e ?u' s2)"
      using Inr nv ex le ru s1(1) s2(1)
      by (simp add: EmailVerificationView_get_def EmailVerification_is_expired_def
          split: prod.splits)
    then show ?thesis using s2(2) by (simp add: wf_send_welcome_email)
  qed
qed

lemma wf_UserLoginView_post:
  assumes wf: "wf_state s"
  shows "wf_state (snd (UserLoginView_post e req s))"
  using wf wf_update_last_login[OF wf]
  by (auto simp: UserLoginView_post_def Let_def split: sum.splits)

lemma wf_ForgotPasswordView_post:
  assumes wf: "wf_state s"
  shows "wf_state (snd (ForgotPasswordView_post e em s))"
proof (cases "ForgotPasswordSerializer_is_valid e em")
  case (Inl errors)
  then show ?thesis using wf by (simp add: ForgotPasswordView_post_def)
next
  case valid: (Inr v)
  show ?thesis
  proof (cases "objects_get (\<lambda>u. email u = v) User_DoesNotExist (users s)")
    case (Inl x)
    then show ?thesis
      using wf valid by (simp add: ForgotPasswordView_post_def)
  next
    case (Inr u)
    have uin: "u \<in> set (users s)" using objects_get_Inr_mem[OF Inr] by simp
    note c = wf_PasswordReset_objects_create[OF wf uin, of e]
    show ?thesis
      using valid Inr c
      by (auto simp: ForgotPasswordView_post_def
          split: prod.splits sum.splits dest: wf_send_password_reset_emailD)
  qed
qed

lemma wf_ResetPasswordView_post:
  assumes wf: "wf_state s"
  shows "wf_state (snd (ResetPasswordView_post e req s))"
proof (cases "ResetPasswordSerializer_is_valid req")
  case (Inl errors)
  then show ?thesis using wf by (simp add: ResetPasswordView_post_def)
next
  case valid: (Inr d)
  show ?thesis
  proof (cases "objects_get (\<lambda>r. pr_token r = reset_token d) PasswordReset_DoesNotExist
                  (password_resets s)")
    case (Inl x)
    then show ?thesis using wf valid by (simp add: ResetPasswordView_post_def)
  next
    case (Inr r)
    have rin: "r \<in> set (password_resets s)" using objects_get_Inr_mem[OF Inr] by simp
    obtain t where ex: "pr_expires_at r = Some t" using wf_password_reset_expires[OF wf rin] by blast
    show ?thesis
    proof (cases "pr_is_used r \<or> now e > t")
      case True
      then show ?thesis
        using wf valid Inr ex
        by (auto simp: ResetPasswordView_post_def PasswordReset_is_expired_def)
    next
      case False
      then have nu: "\<not> pr_is_used r" and le: "now e \<le> t" by auto
      obtain u where ru: "related_user (pr_user_id r) s = Inr u"
        using wf_related_user_of_reset[OF wf rin] by blast
      have uin: "u \<in> set (users s)" using related_user_id[OF ru] by simp
      let ?u' = "u\<lparr>password := make_password e (reset_new_password d)\<rparr>"
      let ?r' = "r\<lparr>pr_is_used := True\<rparr>"
      obtain s1 where s1: "User_save ?u' s = (Inr ?u', s1)" "wf_state s1"
          "password_resets s1 = password_resets s"
        using User_save_stored[OF wf uin, of ?u'] by auto
      have rin1: "r \<in> set (password_resets s1)" using rin s1(3) by simp
      obtain s2 where s2: "PasswordReset_save (tick e) ?r' s1 = (Inr ?r', s2)" "wf_state s2"
        using PasswordReset_save_stored[OF s1(2) rin1, of ?r' "tick e"] by auto
      have "snd (ResetPasswordView_post e req s) = snd (send_password_changed_email e ?u' s2)"
        using valid Inr nu ex le ru s1(1) s2(1)
        by (simp add: ResetPasswordView_post_def PasswordReset_is_expired_def split: prod.splits)
      then show ?thesis using s2(2) by (simp add: wf_send_password_changed_email)
    qed
  qed
qed

lemma wf_ResendVerificationEmailView_post:
  assumes wf: "wf_state s"
  shows "wf_state (snd (ResendVerificationEmailView_post e email0 s))"
proof (cases email0)
  case None
  then show ?thesis using wf by (simp add: ResendVerificationEmailView_post_def)
next
  case (Some em)
  show ?thesis
  proof (cases "objects_get (\<lambda>u. email u = str_strip (str_lower em)) User_DoesNotExist (users s)")
    case (Inl x)
    then show ?thesis using wf Some by (simp add: ResendVerificationEmailView_post_def)
  next
    case (Inr u)
    have uin: "u \<in> set (users s)" using objects_get_Inr_mem[OF Inr] by simp
    have wfd: "wf_state (delete_verifications_of u s)" by (rule wf_delete_verifications_of[OF wf])
    have uin': "u \<in> set (users (delete_verifications_of u s))"
      using uin by (simp add: delete_verifications_of_def)
    note c = wf_EmailVerification_objects_create[OF wfd uin', of e]
    show ?thesis
      using wf Some Inr c
      by (auto simp: ResendVerificationEmailView_post_def
          split: prod.splits sum.splits dest: wf_send_verification_emailD)
  qed
qed

lemma wf_UserRegistrationView_post:
  assumes wf: "wf_state s"
  shows "wf_state (snd (UserRegistrationView_post e req s))"
proof (cases "UserRegistrationSerializer_is_valid e req s")
  case (Inl errors)
  then show ?thesis using wf by (simp add: UserRegistrationView_post_def)
next
  case valid: (Inr d)
  note f = UserRegistrationSerializer_is_valid_Inr[OF valid]
  let ?u = "\<lparr>user_id = Some (next_user_id s), email = reg_email d,
             password = make_password e (reg_password d),
             first_name = reg_first_name d, last_name = reg_last_name d,
             phone_number = (case reg_phone_number d of None \<Rightarrow> [] | Some p \<Rightarrow> p),
             user_type = (case reg_user_type d of None \<Rightarrow> pet_owner | Some t \<Rightarrow> t),
             email_verified = False, is_active = False, is_staff = False,
             date_joined = now e, last_login = None\<rparr>"
  let ?s1 = "s\<lparr>users := users s @ [?u], next_user_id := Suc (next_user_id s)\<rparr>"
  have create: "UserRegistrationSerializer_create e d s = (Inr ?u, ?s1)"
    by (rule UserRegistrationSerializer_create_valid[OF valid])
  have wf1: "wf_state ?s1" using f by (intro wf_insert_user[OF wf]) simp_all
  have uin: "?u \<in> set (users ?s1)" by simp
  note c = wf_EmailVerification_objects_create[OF wf1 uin, of "tick e"]
  show ?thesis
    using valid create c
    by (auto simp: UserRegistrationView_post_def
        split: prod.splits sum.splits dest: wf_send_verification_emailD)
qed

end
